theory Spec2Isabelle
  imports Main "HOL-Library.Sublist"
begin

section \<open>JavaScript strings\<close>

text \<open>
  A JavaScript string is a sequence of UTF-16 code units; \<open>length\<close>, \<open>substring\<close>,
  \<open>startsWith\<close>, \<open>includes\<close> and \<open>===\<close> all work on code units. The literals of
  \<^verbatim>\<open>server.js\<close> are written out as their code units (every character of the source's
  literals lies in the Basic Multilingual Plane, so one character is one code unit).
\<close>

type_synonym jsstring = "nat list"

text \<open>\<^verbatim>\<open>String.prototype.trim\<close> removes WhiteSpace and LineTerminator code points from
  both ends (ECMA-262, 22.1.3.32).\<close>

definition isWhiteSpace :: "nat \<Rightarrow> bool" where
  "isWhiteSpace c \<longleftrightarrow>
     c = 0x9 \<or> c = 0xA \<or> c = 0xB \<or> c = 0xC \<or> c = 0xD \<or> c = 0x20 \<or> c = 0xA0 \<or>
     c = 0x1680 \<or> (0x2000 \<le> c \<and> c \<le> 0x200A) \<or> c = 0x2028 \<or> c = 0x2029 \<or>
     c = 0x202F \<or> c = 0x205F \<or> c = 0x3000 \<or> c = 0xFEFF"

definition trim :: "jsstring \<Rightarrow> jsstring" where
  "trim s = rev (dropWhile isWhiteSpace (rev (dropWhile isWhiteSpace s)))"

definition startsWith :: "jsstring \<Rightarrow> jsstring \<Rightarrow> bool" where
  "startsWith s p \<longleftrightarrow> prefix p s"

text \<open>\<^verbatim>\<open>s.includes(p)\<close>: \<open>p\<close> occurs in \<open>s\<close> at some position.\<close>

fun includes_str :: "jsstring \<Rightarrow> jsstring \<Rightarrow> bool" where
  "includes_str [] p \<longleftrightarrow> p = []"
| "includes_str (c # cs) p \<longleftrightarrow> prefix p (c # cs) \<or> includes_str cs p"

text \<open>\<^verbatim>\<open>s.replace(pat, rep)\<close> with a string pattern replaces the first occurrence only
  (anywhere in \<open>s\<close>, not only at its start) and leaves \<open>s\<close> alone when there is none.\<close>

fun replaceFirst :: "jsstring \<Rightarrow> jsstring \<Rightarrow> jsstring \<Rightarrow> jsstring" where
  "replaceFirst [] pat rep = (if pat = [] then rep else [])"
| "replaceFirst (c # cs) pat rep =
     (if prefix pat (c # cs) then rep @ drop (length pat) (c # cs)
      else c # replaceFirst cs pat rep)"

text \<open>\<^verbatim>\<open>s.split(',')\<close>: the pieces between the separators, in order; a string with
  \<open>n\<close> separators has \<open>n + 1\<close> pieces, and the empty string has the one piece \<open>""\<close>.
  (The list of pieces is never empty, so the first branch of the \<open>case\<close> is never taken.)\<close>

fun split_str :: "nat \<Rightarrow> jsstring \<Rightarrow> jsstring list" where
  "split_str sep [] = [[]]"
| "split_str sep (c # cs) =
     (if c = sep then [] # split_str sep cs
      else (case split_str sep cs of
              [] \<Rightarrow> [[c]]
            | piece # pieces \<Rightarrow> (c # piece) # pieces))"

definition comma :: nat where
  "comma = 0x2C"

subsection \<open>encodeURIComponent\<close>

text \<open>
  \<^verbatim>\<open>encodeURIComponent\<close> (ECMA-262, 19.2.6.5) keeps the unreserved characters, writes every
  other code point as the percent-escaped bytes of its UTF-8 form, and throws a URIError on
  a surrogate code unit that is not part of a pair: \<open>None\<close> here.
\<close>

definition uriUnreserved :: "nat \<Rightarrow> bool" where
  "uriUnreserved c \<longleftrightarrow>
     (0x41 \<le> c \<and> c \<le> 0x5A) \<or> (0x61 \<le> c \<and> c \<le> 0x7A) \<or> (0x30 \<le> c \<and> c \<le> 0x39) \<or>
     c = 0x2D \<or> c = 0x5F \<or> c = 0x2E \<or> c = 0x21 \<or> c = 0x7E \<or> c = 0x2A \<or> c = 0x27 \<or>
     c = 0x28 \<or> c = 0x29"

definition hexDigit :: "nat \<Rightarrow> nat" where
  "hexDigit d = (if d < 10 then 0x30 + d else 0x41 + (d - 10))"

definition percentByte :: "nat \<Rightarrow> jsstring" where
  "percentByte b = [0x25, hexDigit (b div 16), hexDigit (b mod 16)]"

definition utf8 :: "nat \<Rightarrow> nat list" where
  "utf8 cp =
     (if cp < 0x80 then [cp]
      else if cp < 0x800 then [0xC0 + cp div 64, 0x80 + cp mod 64]
      else if cp < 0x10000 then [0xE0 + cp div 4096, 0x80 + (cp div 64) mod 64, 0x80 + cp mod 64]
      else [0xF0 + cp div 262144, 0x80 + (cp div 4096) mod 64, 0x80 + (cp div 64) mod 64,
            0x80 + cp mod 64])"

definition percentEncode :: "nat \<Rightarrow> jsstring" where
  "percentEncode cp = concat (map percentByte (utf8 cp))"

definition isHighSurrogate :: "nat \<Rightarrow> bool" where
  "isHighSurrogate c \<longleftrightarrow> 0xD800 \<le> c \<and> c \<le> 0xDBFF"

definition isLowSurrogate :: "nat \<Rightarrow> bool" where
  "isLowSurrogate c \<longleftrightarrow> 0xDC00 \<le> c \<and> c \<le> 0xDFFF"

fun encodeURIComponent :: "jsstring \<Rightarrow> jsstring option" where
  "encodeURIComponent [] = Some []"
| "encodeURIComponent [c] =
     (if uriUnreserved c then Some [c]
      else if isHighSurrogate c \<or> isLowSurrogate c then None
      else Some (percentEncode c))"
| "encodeURIComponent (c # d # cs) =
     (if uriUnreserved c then map_option ((#) c) (encodeURIComponent (d # cs))
      else if isLowSurrogate c then None
      else if isHighSurrogate c then
        (if isLowSurrogate d
         then map_option ((@) (percentEncode (0x10000 + (c - 0xD800) * 1024 + (d - 0xDC00))))
                (encodeURIComponent cs)
         else None)
      else map_option ((@) (percentEncode c)) (encodeURIComponent (d # cs)))"

subsection \<open>The literals of the handler\<close>

definition leadComma :: jsstring where
  "leadComma = [0x9662, 0x9577, 0xFF0C]"

definition leadSpace :: jsstring where
  "leadSpace = [0x9662, 0x9577, 0x20]"

definition greeting :: jsstring where
  "greeting = [0x9662, 0x9577, 0x597D]"

definition quoteCommand1 :: jsstring where
  "quoteCommand1 = [0x9662, 0x9577, 0xFF0C, 0x91D1, 0x53E5]"

definition quoteCommand2 :: jsstring where
  "quoteCommand2 = [0x9662, 0x9577, 0xFF0C, 0x8A9E, 0x9304]"

definition photosPrefix :: jsstring where
  "photosPrefix = [0x2F, 0x50, 0x68, 0x6F, 0x74, 0x6F, 0x73, 0x2F]"

definition httpsScheme :: jsstring where
  "httpsScheme = [0x68, 0x74, 0x74, 0x70, 0x73, 0x3A, 0x2F, 0x2F]"

definition httpScheme :: jsstring where
  "httpScheme = [0x68, 0x74, 0x74, 0x70, 0x3A, 0x2F, 0x2F]"

definition searchQuery :: jsstring where
  "searchQuery = [0x3F, 0x73, 0x65, 0x61, 0x72, 0x63, 0x68, 0x3D]"

definition denylisted :: jsstring where
  "denylisted = [0x97D3, 0x570B, 0x745C]"

definition sentinel :: jsstring where
  "sentinel = [0x7F77, 0x514D]"

definition defaultFallbackQuote :: jsstring where
  "defaultFallbackQuote = [0x83AB, 0x5FD8, 0x4E16, 0x4E0A, 0x82E6, 0x4EBA, 0x591A]"

section \<open>Reading the message\<close>

text \<open>
  Lines 115 to 123: \<open>tagToSearch\<close> stays \<^verbatim>\<open>null\<close> (\<open>None\<close>) unless the trimmed message
  starts with one of the two lead-ins; then it is what follows the three code units of the
  lead-in, trimmed again.
\<close>

definition tagToSearch :: "jsstring \<Rightarrow> jsstring option" where
  "tagToSearch messageText =
     (if startsWith messageText leadComma then Some (trim (drop 3 messageText))
      else if startsWith messageText leadSpace then Some (trim (drop 3 messageText))
      else None)"

section \<open>Keyword lists from the generated text\<close>

text \<open>
  Lines 233 to 248, the tag path: split at commas, trim, keep the pieces of one to six code
  units that do not contain the persona's name and consist of CJK ideographs
  (U+4E00 to U+9FA5) and digits only, then keep the first three.
\<close>

definition isCjkOrDigit :: "nat \<Rightarrow> bool" where
  "isCjkOrDigit c \<longleftrightarrow> (0x4E00 \<le> c \<and> c \<le> 0x9FA5) \<or> (0x30 \<le> c \<and> c \<le> 0x39)"

definition tagKeywordOk :: "jsstring \<Rightarrow> bool" where
  "tagKeywordOk k \<longleftrightarrow>
     (if k = [] then False
      else if length k < 1 \<or> length k > 6 then False
      else if includes_str k denylisted then False
      else if \<not> list_all isCjkOrDigit k then False
      else True)"

definition tagKeywords :: "jsstring \<Rightarrow> jsstring list" where
  "tagKeywords geminiText = take 3 (filter tagKeywordOk (map trim (split_str comma geminiText)))"

text \<open>
  Lines 505 and 510, the free-text path: split at commas, trim, drop the empty pieces, then
  drop the pieces that are exactly the persona's name. There is no \<^verbatim>\<open>slice\<close> and no
  \<^verbatim>\<open>includes\<close> on this path.
\<close>

definition freeTextKeywords :: "jsstring \<Rightarrow> jsstring list" where
  "freeTextKeywords geminiText =
     filter (\<lambda>keyword. keyword \<noteq> [] \<and> keyword \<noteq> denylisted)
       (filter (\<lambda>k. k \<noteq> []) (map trim (split_str comma geminiText)))"

section \<open>The fixed reply texts\<close>

text \<open>Line 140.\<close>

definition noPhotosText :: jsstring where
  "noPhotosText =
     [0x9662, 0x9577, 0x9019, 0x908A, 0x73FE, 0x5728, 0x6C92, 0x6709, 0x7167, 0x7247, 0x5566,
     0xFF01]"

text \<open>Lines 152 and 392.\<close>

definition pathErrorText :: jsstring where
  "pathErrorText =
     [0x62B1, 0x6B49, 0xFF0C, 0x96A8, 0x6A5F, 0x9078, 0x5230, 0x7684, 0x7167, 0x7247, 0x8DEF,
     0x5F91, 0x683C, 0x5F0F, 0x932F, 0x8AA4, 0x3002]"

text \<open>Line 166.\<close>

definition greetingErrorOther :: jsstring where
  "greetingErrorOther =
     [0x62B1, 0x6B49, 0xFF0C, 0x8655, 0x7406, 0x300C, 0x9662, 0x9577, 0x597D, 0x300D, 0x8ACB,
     0x6C42, 0x6642, 0x767C, 0x751F, 0x932F, 0x8AA4, 0x3002]"

text \<open>Line 170.\<close>

definition greetingErrorResponse :: jsstring where
  "greetingErrorResponse =
     [0x62B1, 0x6B49, 0xFF0C, 0x7121, 0x6CD5, 0x5F9E, 0x5716, 0x7247, 0x5EAB, 0x53D6, 0x5F97,
     0x8CC7, 0x6599, 0x3002]"

text \<open>Line 173.\<close>

definition greetingErrorRequest :: jsstring where
  "greetingErrorRequest =
     [0x62B1, 0x6B49, 0xFF0C, 0x7121, 0x6CD5, 0x9023, 0x7DDA, 0x5230, 0x5716, 0x7247, 0x5EAB,
     0x3002]"

text \<open>Lines 427, 431 and 434, before the tag.\<close>

definition tagErrorHead :: jsstring where
  "tagErrorHead =
     [0x62B1, 0x6B49, 0xFF0C, 0x641C, 0x5C0B, 0x6A19, 0x7C64, 0x300C]"

text \<open>Line 427, after the tag.\<close>

definition tagErrorOtherTail :: jsstring where
  "tagErrorOtherTail =
     [0x300D, 0x6642, 0x767C, 0x751F, 0x932F, 0x8AA4, 0x3002]"

text \<open>Line 431, after the tag.\<close>

definition tagErrorResponseTail :: jsstring where
  "tagErrorResponseTail =
     [0x300D, 0x6642, 0x7121, 0x6CD5, 0x5F9E, 0x5716, 0x7247, 0x5EAB, 0x53D6, 0x5F97, 0x8CC7,
     0x6599, 0x3002]"

text \<open>Line 434, after the tag.\<close>

definition tagErrorRequestTail :: jsstring where
  "tagErrorRequestTail =
     [0x300D, 0x6642, 0x7121, 0x6CD5, 0x9023, 0x7DDA, 0x5230, 0x5716, 0x7247, 0x5EAB, 0x3002]"

text \<open>Lines 362, 374, 614 and 626, before the tag or message.\<close>

definition fallbackHead :: jsstring where
  "fallbackHead =
     [0x9662, 0x9577, 0x6C92, 0x6709, 0x5728, 0x8DDF, 0x4F60]"

text \<open>Lines 362, 374, 614 and 626, after the tag or message.\<close>

definition fallbackTail :: jsstring where
  "fallbackTail =
     [0x7684, 0x5566, 0xFF01]"

text \<open>Lines 299 and 413 (the same text twice).\<close>

definition recallText :: jsstring where
  "recallText =
     [0x4EBA, 0x5BB6, 0x90FD, 0x8AAA, 0x597D, 0x6771, 0x897F, 0x8981, 0x8DDF, 0x597D, 0x670B,
     0x53CB, 0x5206, 0x4EAB, 0xFF0C, 0x6211, 0x9AD4, 0x9A57, 0x904E, 0x88AB, 0x7F77, 0x514D,
     0x7684, 0x611F, 0x89BA, 0xFF0C, 0x9019, 0x662F, 0x4E00, 0x7A2E, 0x5B64, 0x55AE, 0x7684,
     0x611F, 0x53D7, 0xFF0C, 0x5C31, 0x50CF, 0x751F, 0x65E5, 0x81EA, 0x5DF1, 0x5403, 0x86CB,
     0x7CD5, 0xFF0C, 0x4E0D, 0x597D, 0xFF0C, 0x5B64, 0x55AE, 0xFF0C, 0x5BC2, 0x5BDE, 0xFF0C,
     0x592A, 0x908A, 0x7DE3, 0x3002, 0xA, 0x56E0, 0x6B64, 0xFF0C, 0x6211, 0x5011, 0x8981,
     0x61C2, 0x5F97, 0x5206, 0x4EAB, 0xFF0C, 0x5206, 0x4EAB, 0x88AB, 0x7F77, 0x514D, 0x7684,
     0x7D93, 0x9A57, 0x7D66, 0x540C, 0x9EE8, 0x7684, 0x540C, 0x5FD7, 0xFF0C, 0x6240, 0x4EE5,
     0x5404, 0x4F4D, 0x570B, 0x4EBA, 0x540C, 0x80DE, 0xFF0C, 0x8981, 0x8B93, 0x6211, 0x5011,
     0x570B, 0x6C11, 0x9EE8, 0x7684, 0x7ACB, 0x59D4, 0x5011, 0xFF0C, 0x8DDF, 0x6211, 0x4E00,
     0x6A23, 0xFF0C, 0x6709, 0x8457, 0x88AB, 0x7F77, 0x514D, 0x7684, 0x7F8E, 0x597D, 0x7D93,
     0x9A57, 0xFF0C, 0x8ACB, 0x4E00, 0x5B9A, 0x8981, 0x7AD9, 0x51FA, 0x4F86, 0x9023, 0x7F72,
     0xFF0C, 0x8B93, 0x6211, 0x5011, 0x570B, 0x6C11, 0x9EE8, 0x7684, 0x7ACB, 0x59D4, 0x5011,
     0xFF0C, 0x4E00, 0x8D77, 0x4EAB, 0x53D7, 0x88AB, 0x7F77, 0x514D, 0x7684, 0x597D, 0x6ECB,
     0x5473, 0xFF01, 0xA, 0xA, 0x7ACB, 0x523B, 0x53C3, 0x8207, 0x4E8C, 0x968E, 0x6BB5,
     0x7F77, 0x514D, 0x9023, 0x7F72, 0xFF01, 0xA, 0x68, 0x74, 0x74, 0x70, 0x73, 0x3A, 0x2F,
     0x2F, 0x62, 0x61, 0x62, 0x61, 0x62, 0x61, 0x62, 0x61, 0x2E, 0x74, 0x77, 0x2F, 0xA, 0xA,
     0x6700, 0x65B0, 0x7F77, 0x514D, 0x9032, 0x5EA6, 0xFF1A, 0xA, 0x68, 0x74, 0x74, 0x70,
     0x73, 0x3A, 0x2F, 0x2F, 0x61, 0x6D, 0x61, 0x6F, 0x63, 0x68, 0x65, 0x6E, 0x30, 0x31,
     0x31, 0x30, 0x2E, 0x67, 0x69, 0x74, 0x68, 0x75, 0x62, 0x2E, 0x69, 0x6F, 0x2F, 0x55,
     0x6E, 0x73, 0x65, 0x61, 0x74, 0x2F]"

text \<open>The template literals of lines 362, 374, 614 and 626.\<close>

definition fixedFallback :: "jsstring \<Rightarrow> jsstring" where
  "fixedFallback s = fallbackHead @ s @ fallbackTail"

section \<open>Events, replies and the services the handler calls\<close>

text \<open>
  The webhook event, as far as \<^verbatim>\<open>handleEvent\<close> reads it: its type, and for a message
  event the source type, the reply token and the message (its text when it is a text
  message).
\<close>

datatype sourceType = User | Group | Room | OtherSource

datatype messageContent = TextMessage jsstring | OtherMessage

datatype event = MessageEvent sourceType jsstring messageContent | OtherEvent

text \<open>A message of a reply: an image (\<^verbatim>\<open>originalContentUrl\<close>, \<^verbatim>\<open>previewImageUrl\<close>)
  or a text.\<close>

datatype message = Image jsstring jsstring | Text jsstring

text \<open>
  The four prompts sent to the generative model. Each is a fixed template around the tag
  or the message (and the quotes string for the two response prompts); the model is an
  opaque service, so a prompt is recorded as its template and what was filled in:
  lines 203 to 223, 321 to 336, 486 to 495 and 575 to 590.
\<close>

datatype prompt =
    TagKeywordPrompt jsstring
  | TagResponsePrompt jsstring jsstring
  | MessageKeywordPrompt jsstring
  | MessageResponsePrompt jsstring jsstring

text \<open>
  The photo API answers with a JSON array of objects (or with nothing: \<open>None\<close>). The
  handler reads only \<^verbatim>\<open>path\<close> of a record: it may be absent or otherwise falsy, a
  string, or some other truthy value, on which \<^verbatim>\<open>.startsWith\<close> throws a TypeError.
\<close>

datatype pathValue = PathFalsy | PathString jsstring | PathOther

datatype photo = Photo pathValue

text \<open>
  What the handler does to the outside, in order: a GET of a URL, a call of the generative
  model, the selection of a random photo (which the handler logs on every path), and a
  call of \<^verbatim>\<open>client.replyMessage\<close> with the reply token and the messages (a single
  message is a list of one). \<^verbatim>\<open>replyMessage\<close> returns a promise that the handler returns
  without awaiting it, so a reply that fails later is not caught by any \<^verbatim>\<open>try\<close> of the
  handler: sending the reply is the last thing the handler does for the event.
\<close>

datatype effect =
    Get jsstring
  | Generate prompt
  | Selected photo
  | Reply jsstring "message list"

text \<open>A failed GET is told apart by what the error carries (lines 167 to 174 and 428 to
  435): a response, else a request, else neither.\<close>

datatype axiosError = HasResponse | HasRequest | Neither

datatype getResult = Data "photo list option" | GetError axiosError

datatype generateResult = GeneratedText jsstring | GenerateError

text \<open>
  The services are functions of everything the handler has done so far, so the same URL
  may be answered differently at different moments. \<open>mathRandom\<close> is the draw behind
  \<^verbatim>\<open>Math.floor(Math.random() * n)\<close>: a number that is reduced below \<open>n\<close>.
\<close>

record world =
  axiosGet :: "effect list \<Rightarrow> jsstring \<Rightarrow> getResult"
  generateContent :: "effect list \<Rightarrow> prompt \<Rightarrow> generateResult"
  mathRandom :: "effect list \<Rightarrow> nat"

record config =
  photoApiUrl :: jsstring
  photoBaseUrl :: jsstring
  koreanYuQuotes :: "jsstring list"
  koreanYuQuotesString :: jsstring

section \<open>The handler\<close>

text \<open>Lines 72 to 78.\<close>

definition getRandomQuote :: "world \<Rightarrow> config \<Rightarrow> effect list \<Rightarrow> jsstring" where
  "getRandomQuote w cfg h =
     (if length (koreanYuQuotes cfg) = 0 then defaultFallbackQuote
      else koreanYuQuotes cfg ! (mathRandom w h mod length (koreanYuQuotes cfg)))"

text \<open>Lines 155 and 156 (again at 284, 397, 472 and 544).\<close>

definition secureImageUrl :: "config \<Rightarrow> jsstring \<Rightarrow> jsstring" where
  "secureImageUrl cfg p =
     (let imageUrl = photoBaseUrl cfg @ p
      in if startsWith imageUrl httpsScheme then imageUrl
         else replaceFirst imageUrl httpScheme httpsScheme)"

definition imageMessage :: "jsstring \<Rightarrow> message" where
  "imageMessage url = Image url url"

text \<open>Lines 296 to 304 and 410 to 420: the reply of the tag path for an image.\<close>

definition tagImageReply :: "jsstring \<Rightarrow> jsstring \<Rightarrow> message list" where
  "tagImageReply tag url =
     (if tag = sentinel then [imageMessage url, Text recallText] else [imageMessage url])"

definition searchUrl :: "config \<Rightarrow> jsstring \<Rightarrow> jsstring" where
  "searchUrl cfg q = photoApiUrl cfg @ searchQuery @ q"

text \<open>
  The block the source repeats five times (lines 132 to 154, 195 to 394, 269 to 282,
  454 to 471 and 528 to 542): GET the URL; on an answer with photos draw one and test
  \<^verbatim>\<open>!randomPhoto.path || !randomPhoto.path.startsWith('/Photos/')\<close>. What each place
  does with the outcome differs and is written at each place.
\<close>

datatype selection =
    FetchFailed axiosError
  | NoPhotos
  | InvalidPath
  | PathTypeError
  | ValidPath jsstring

definition photosOf :: "photo list option \<Rightarrow> photo list" where
  "photosOf d = (case d of None \<Rightarrow> [] | Some photos \<Rightarrow> photos)"

fun checkPath :: "photo \<Rightarrow> selection" where
  "checkPath (Photo PathFalsy) = InvalidPath"
| "checkPath (Photo PathOther) = PathTypeError"
| "checkPath (Photo (PathString p)) =
     (if p = [] \<or> \<not> startsWith p photosPrefix then InvalidPath else ValidPath p)"

definition fetchAndSelect :: "world \<Rightarrow> jsstring \<Rightarrow> effect list \<Rightarrow> effect list \<times> selection" where
  "fetchAndSelect w url h =
     (case axiosGet w h url of
        GetError e \<Rightarrow> (h @ [Get url], FetchFailed e)
      | Data d \<Rightarrow>
          (let photos = photosOf d
           in if photos = [] then (h @ [Get url], NoPhotos)
              else (let randomPhoto = photos ! (mathRandom w (h @ [Get url]) mod length photos)
                    in (h @ [Get url, Selected randomPhoto], checkPath randomPhoto))))"

text \<open>Lines 126 to 176, the greeting. A TypeError of the path test lands in the
  \<^verbatim>\<open>catch\<close> of line 164 and carries neither a response nor a request.\<close>

definition greetingErrorMessage :: "axiosError \<Rightarrow> jsstring" where
  "greetingErrorMessage e =
     (case e of HasResponse \<Rightarrow> greetingErrorResponse
      | HasRequest \<Rightarrow> greetingErrorRequest
      | Neither \<Rightarrow> greetingErrorOther)"

definition greetingCommand :: "world \<Rightarrow> config \<Rightarrow> jsstring \<Rightarrow> effect list \<Rightarrow> effect list" where
  "greetingCommand w cfg tok h =
     (case fetchAndSelect w (photoApiUrl cfg) h of
        (h', FetchFailed e) \<Rightarrow> h' @ [Reply tok [Text (greetingErrorMessage e)]]
      | (h', NoPhotos) \<Rightarrow> h' @ [Reply tok [Text noPhotosText]]
      | (h', InvalidPath) \<Rightarrow> h' @ [Reply tok [Text pathErrorText]]
      | (h', PathTypeError) \<Rightarrow> h' @ [Reply tok [Text (greetingErrorMessage Neither)]]
      | (h', ValidPath p) \<Rightarrow> h' @ [Reply tok [imageMessage (secureImageUrl cfg p)]])"

text \<open>Lines 177 to 186, the quote command.\<close>

definition quoteCommand :: "world \<Rightarrow> config \<Rightarrow> jsstring \<Rightarrow> effect list \<Rightarrow> effect list" where
  "quoteCommand w cfg tok h = h @ [Reply tok [Text (getRandomQuote w cfg h)]]"

text \<open>
  The keyword call of lines 225 to 261 and 496 to 520: a failed call and a blank text both
  leave the keyword list empty; \<open>parse\<close> is the filter of the path.
\<close>

definition generateKeywords ::
  "world \<Rightarrow> prompt \<Rightarrow> (jsstring \<Rightarrow> jsstring list) \<Rightarrow> effect list \<Rightarrow> jsstring list" where
  "generateKeywords w p parse h =
     (case generateContent w h p of
        GenerateError \<Rightarrow> []
      | GeneratedText t \<Rightarrow> (let geminiText = trim t in if geminiText \<noteq> [] then parse geminiText else []))"

text \<open>
  The keyword loop of lines 265 to 313 and 524 to 569; the two copies differ only in the
  reply they build, \<open>mk\<close>. The result says whether the loop has replied, which in the
  source is a \<^verbatim>\<open>return\<close> from the handler. A URIError of \<^verbatim>\<open>encodeURIComponent\<close>, a
  failed GET and a TypeError of the path test are caught inside the loop body, and an
  invalid path is a \<^verbatim>\<open>continue\<close>: all go on with the next keyword.
\<close>

fun keywordLoop ::
  "world \<Rightarrow> config \<Rightarrow> jsstring \<Rightarrow> (jsstring \<Rightarrow> message list) \<Rightarrow> jsstring list \<Rightarrow> effect list
     \<Rightarrow> effect list \<times> bool" where
  "keywordLoop w cfg tok mk [] h = (h, False)"
| "keywordLoop w cfg tok mk (keyword # rest) h =
     (case encodeURIComponent keyword of
        None \<Rightarrow> keywordLoop w cfg tok mk rest h
      | Some q \<Rightarrow>
          (case fetchAndSelect w (searchUrl cfg q) h of
             (h', FetchFailed e) \<Rightarrow> keywordLoop w cfg tok mk rest h'
           | (h', NoPhotos) \<Rightarrow> keywordLoop w cfg tok mk rest h'
           | (h', InvalidPath) \<Rightarrow> keywordLoop w cfg tok mk rest h'
           | (h', PathTypeError) \<Rightarrow> keywordLoop w cfg tok mk rest h'
           | (h', ValidPath p) \<Rightarrow> (h' @ [Reply tok (mk (secureImageUrl cfg p))], True)))"

text \<open>
  The response call of lines 319 to 364 and 574 to 616: the trimmed text when it is not
  empty, else (and on a failed call) the fixed text around the tag or message.
\<close>

definition respondInStyle ::
  "world \<Rightarrow> jsstring \<Rightarrow> prompt \<Rightarrow> jsstring \<Rightarrow> effect list \<Rightarrow> effect list" where
  "respondInStyle w tok p seed h =
     (case generateContent w h p of
        GenerateError \<Rightarrow> h @ [Generate p, Reply tok [Text (fixedFallback seed)]]
      | GeneratedText t \<Rightarrow>
          (let geminiText = trim t
           in if geminiText \<noteq> [] then h @ [Generate p, Reply tok [Text geminiText]]
              else h @ [Generate p, Reply tok [Text (fixedFallback seed)]]))"

text \<open>Lines 199 to 377: what the tag path does when the search for the tag found
  nothing. Nothing between the inner \<^verbatim>\<open>try\<close> blocks throws, so the \<^verbatim>\<open>catch\<close> of line
  368 is never taken.\<close>

definition tagFallback ::
  "world \<Rightarrow> config \<Rightarrow> jsstring \<Rightarrow> jsstring \<Rightarrow> effect list \<Rightarrow> effect list" where
  "tagFallback w cfg tok tag h =
     (let keywords = generateKeywords w (TagKeywordPrompt tag) tagKeywords h;
          looped = keywordLoop w cfg tok (tagImageReply tag) keywords
                     (h @ [Generate (TagKeywordPrompt tag)])
      in if snd looped then fst looped
         else respondInStyle w tok (TagResponsePrompt (koreanYuQuotesString cfg) tag) tag
                (fst looped))"

text \<open>Lines 424 to 439.\<close>

definition tagErrorMessage :: "axiosError \<Rightarrow> jsstring \<Rightarrow> jsstring" where
  "tagErrorMessage e tag =
     (case e of HasResponse \<Rightarrow> tagErrorHead @ tag @ tagErrorResponseTail
      | HasRequest \<Rightarrow> tagErrorHead @ tag @ tagErrorRequestTail
      | Neither \<Rightarrow> tagErrorHead @ tag @ tagErrorOtherTail)"

text \<open>Lines 189 to 440, the tag path. A URIError of line 193 and a TypeError of line 388
  land in the \<^verbatim>\<open>catch\<close> of line 424 and carry neither a response nor a request.\<close>

definition tagPath ::
  "world \<Rightarrow> config \<Rightarrow> jsstring \<Rightarrow> jsstring \<Rightarrow> effect list \<Rightarrow> effect list" where
  "tagPath w cfg tok tag h =
     (case encodeURIComponent tag of
        None \<Rightarrow> h @ [Reply tok [Text (tagErrorMessage Neither tag)]]
      | Some q \<Rightarrow>
          (case fetchAndSelect w (searchUrl cfg q) h of
             (h', FetchFailed e) \<Rightarrow> h' @ [Reply tok [Text (tagErrorMessage e tag)]]
           | (h', NoPhotos) \<Rightarrow> tagFallback w cfg tok tag h'
           | (h', InvalidPath) \<Rightarrow> h' @ [Reply tok [Text pathErrorText]]
           | (h', PathTypeError) \<Rightarrow> h' @ [Reply tok [Text (tagErrorMessage Neither tag)]]
           | (h', ValidPath p) \<Rightarrow> h' @ [Reply tok (tagImageReply tag (secureImageUrl cfg p))]))"

text \<open>Lines 483 to 617: keyword extraction, the loop and the response for a message of a
  one-to-one chat.\<close>

definition freeTextFallback ::
  "world \<Rightarrow> config \<Rightarrow> jsstring \<Rightarrow> jsstring \<Rightarrow> effect list \<Rightarrow> effect list" where
  "freeTextFallback w cfg tok messageText h =
     (let keywords = generateKeywords w (MessageKeywordPrompt messageText) freeTextKeywords h;
          looped = keywordLoop w cfg tok (\<lambda>url. [imageMessage url]) keywords
                     (h @ [Generate (MessageKeywordPrompt messageText)])
      in if snd looped then fst looped
         else respondInStyle w tok
                (MessageResponsePrompt (koreanYuQuotesString cfg) messageText) messageText
                (fst looped))"

text \<open>
  Lines 444 to 628, the one-to-one chat. The URL of line 450 is built outside the inner
  \<^verbatim>\<open>try\<close>, so its URIError, like the TypeError of line 468, lands in the \<^verbatim>\<open>catch\<close> of
  line 619. A failed GET is caught at line 456 and leaves \<^verbatim>\<open>photos\<close> empty.
\<close>

definition freeTextPath ::
  "world \<Rightarrow> config \<Rightarrow> jsstring \<Rightarrow> jsstring \<Rightarrow> effect list \<Rightarrow> effect list" where
  "freeTextPath w cfg tok messageText h =
     (case encodeURIComponent messageText of
        None \<Rightarrow> h @ [Reply tok [Text (fixedFallback messageText)]]
      | Some q \<Rightarrow>
          (case fetchAndSelect w (searchUrl cfg q) h of
             (h', FetchFailed e) \<Rightarrow> freeTextFallback w cfg tok messageText h'
           | (h', NoPhotos) \<Rightarrow> freeTextFallback w cfg tok messageText h'
           | (h', InvalidPath) \<Rightarrow> freeTextFallback w cfg tok messageText h'
           | (h', PathTypeError) \<Rightarrow> h' @ [Reply tok [Text (fixedFallback messageText)]]
           | (h', ValidPath p) \<Rightarrow> h' @ [Reply tok [imageMessage (secureImageUrl cfg p)]]))"

text \<open>Lines 441 to 634: a message that is no command and carries no tag is answered in a
  one-to-one chat only.\<close>

definition unmatchedText ::
  "world \<Rightarrow> config \<Rightarrow> sourceType \<Rightarrow> jsstring \<Rightarrow> jsstring \<Rightarrow> effect list \<Rightarrow> effect list" where
  "unmatchedText w cfg src tok messageText h =
     (if src = User then freeTextPath w cfg tok messageText h else h)"

definition supported :: "sourceType \<Rightarrow> bool" where
  "supported src \<longleftrightarrow> src = User \<or> src = Group \<or> src = Room"

text \<open>
  Lines 104 to 635. The result is everything the handler did for the event, in order.
  The test \<^verbatim>\<open>else if (tagToSearch)\<close> of line 189 fails for \<^verbatim>\<open>null\<close> and for the empty
  string.
\<close>

fun handleEvent :: "world \<Rightarrow> config \<Rightarrow> event \<Rightarrow> effect list" where
  "handleEvent w cfg OtherEvent = []"
| "handleEvent w cfg (MessageEvent src tok OtherMessage) = []"
| "handleEvent w cfg (MessageEvent src tok (TextMessage text)) =
     (if \<not> supported src then []
      else
        (let messageText = trim text
         in if messageText = greeting then greetingCommand w cfg tok []
            else if messageText = quoteCommand1 \<or> messageText = quoteCommand2
              then quoteCommand w cfg tok []
            else
              (case tagToSearch messageText of
                 None \<Rightarrow> unmatchedText w cfg src tok messageText []
               | Some tag \<Rightarrow>
                   if tag \<noteq> [] then tagPath w cfg tok tag []
                   else unmatchedText w cfg src tok messageText [])))"

section \<open>Vocabulary of the properties\<close>

text \<open>The effects that are calls of \<^verbatim>\<open>replyMessage\<close>, and the messages that are images.\<close>

fun isReply :: "effect \<Rightarrow> bool" where
  "isReply (Reply tok msgs) = True"
| "isReply (Get url) = False"
| "isReply (Generate p) = False"
| "isReply (Selected r) = False"

fun isImage :: "message \<Rightarrow> bool" where
  "isImage (Image u v) = True"
| "isImage (Text t) = False"

text \<open>A stretch of a trace without a reply.\<close>

definition quiet :: "effect list \<Rightarrow> bool" where
  "quiet es \<longleftrightarrow> (\<forall>e \<in> set es. \<not> isReply e)"

text \<open>
  The shape every replying path gives to the trace: from \<open>h\<close> on there is no reply until
  the last effect, which is one reply; that reply is a single text, or it is \<open>mk\<close> of the
  image URL built from the record selected just before it, whose path is valid.
\<close>

definition finishes ::
  "config \<Rightarrow> (jsstring \<Rightarrow> message list) \<Rightarrow> jsstring \<Rightarrow> effect list \<Rightarrow> effect list \<Rightarrow> bool" where
  "finishes cfg mk tok h h' \<longleftrightarrow>
     (\<exists>es msgs. h' = h @ es @ [Reply tok msgs] \<and> quiet es \<and>
        ((\<exists>t. msgs = [Text t]) \<or>
         (\<exists>pre p. h @ es = pre @ [Selected (Photo (PathString p))] \<and> p \<noteq> [] \<and>
            startsWith p photosPrefix \<and> msgs = mk (secureImageUrl cfg p))))"

text \<open>A trimmed message that is no command and carries no tag (line 441), and the events
  for which the handler returns without replying (lines 106 to 113 and 629 to 633).\<close>

definition unmatched :: "jsstring \<Rightarrow> bool" where
  "unmatched messageText \<longleftrightarrow>
     messageText \<noteq> greeting \<and> messageText \<noteq> quoteCommand1 \<and> messageText \<noteq> quoteCommand2 \<and>
     (tagToSearch messageText = None \<or> tagToSearch messageText = Some [])"

fun suppressed :: "event \<Rightarrow> bool" where
  "suppressed OtherEvent = True"
| "suppressed (MessageEvent src tok OtherMessage) = True"
| "suppressed (MessageEvent src tok (TextMessage text)) =
     (\<not> supported src \<or> (src \<noteq> User \<and> unmatched (trim text)))"

text \<open>The messages of a reply with an image, by the tag of the message text.\<close>

definition expectedImageReply :: "jsstring \<Rightarrow> jsstring \<Rightarrow> message list" where
  "expectedImageReply text url =
     (if tagToSearch (trim text) = Some sentinel then [Image url url, Text recallText]
      else [Image url url])"

text \<open>The effects the keyword loop can have.\<close>

fun isSearchEffect :: "effect \<Rightarrow> bool" where
  "isSearchEffect (Get url) = True"
| "isSearchEffect (Selected r) = True"
| "isSearchEffect (Reply tok msgs) = True"
| "isSearchEffect (Generate p) = False"

text \<open>The URLs of the GETs of a trace, in order.\<close>

fun gets :: "effect list \<Rightarrow> jsstring list" where
  "gets [] = []"
| "gets (Get url # es) = url # gets es"
| "gets (Generate p # es) = gets es"
| "gets (Selected r # es) = gets es"
| "gets (Reply tok msgs # es) = gets es"

text \<open>
  In the specification's words: a search (the GET of \<open>url\<close> after the trace \<open>h\<close>) returns a
  non-empty list whose selected record has the validly-prefixed path \<open>p\<close>.
\<close>

definition searchSucceeds :: "world \<Rightarrow> effect list \<Rightarrow> jsstring \<Rightarrow> jsstring \<Rightarrow> bool" where
  "searchSucceeds w h url p \<longleftrightarrow>
     (case axiosGet w h url of
        GetError e \<Rightarrow> False
      | Data d \<Rightarrow>
          photosOf d \<noteq> [] \<and>
          photosOf d ! (mathRandom w (h @ [Get url]) mod length (photosOf d)) = Photo (PathString p) \<and>
          startsWith p photosPrefix)"

text \<open>
  Two auxiliary notions for the trace of the keyword loop: it is empty or starts with a
  GET; and every GET in it succeeds exactly when it is followed by the selection of that
  record and the reply built from it, and by nothing else.
\<close>

definition startsWithGet :: "effect list \<Rightarrow> bool" where
  "startsWithGet es \<longleftrightarrow> (case es of [] \<Rightarrow> True | Get url # rest \<Rightarrow> True | _ \<Rightarrow> False)"

definition answered ::
  "world \<Rightarrow> config \<Rightarrow> jsstring \<Rightarrow> (jsstring \<Rightarrow> message list) \<Rightarrow> effect list \<Rightarrow> effect list \<Rightarrow> bool" where
  "answered w cfg tok mk h es \<longleftrightarrow>
     (\<forall>pre url post p. es = pre @ Get url # post \<longrightarrow>
        (searchSucceeds w (h @ pre) url p \<longleftrightarrow>
         post = [Selected (Photo (PathString p)), Reply tok (mk (secureImageUrl cfg p))]))"

text \<open>Two worlds answer alike after every trace longer than \<open>n\<close>.\<close>

definition agreeBeyond :: "nat \<Rightarrow> world \<Rightarrow> world \<Rightarrow> bool" where
  "agreeBeyond n w w' \<longleftrightarrow>
     (\<forall>h. n < length h \<longrightarrow>
        axiosGet w h = axiosGet w' h \<and> generateContent w h = generateContent w' h \<and>
        mathRandom w h = mathRandom w' h)"

section \<open>Concrete services and events\<close>

text \<open>Small worlds, configurations and texts on which the handler is run below.\<close>

definition plainConfig :: config where
  "plainConfig =
     \<lparr>photoApiUrl = [0x68, 0x74, 0x74, 0x70, 0x73, 0x3A, 0x2F, 0x2F, 0x61, 0x2F, 0x70],
      photoBaseUrl = [0x68, 0x74, 0x74, 0x70, 0x3A, 0x2F, 0x2F, 0x63],
      koreanYuQuotes = [defaultFallbackQuote],
      koreanYuQuotesString = defaultFallbackQuote\<rparr>"

text \<open>Every GET fails without a response and every generation fails.\<close>

definition silentWorld :: world where
  "silentWorld =
     \<lparr>axiosGet = (\<lambda>h url. GetError HasRequest),
      generateContent = (\<lambda>h p. GenerateError),
      mathRandom = (\<lambda>h. 0)\<rparr>"

text \<open>Eleven comma-separated keywords; the first is the persona's name followed by two
  more characters.\<close>

definition elevenKeywords :: jsstring where
  "elevenKeywords =
     [0x97D3, 0x570B, 0x745C, 0x5E02, 0x9577, 0x2C, 0x31, 0x2C, 0x32, 0x2C, 0x33, 0x2C, 0x34,
      0x2C, 0x35, 0x2C, 0x36, 0x2C, 0x37, 0x2C, 0x38, 0x2C, 0x39, 0x2C, 0x41]"

definition talkativeWorld :: world where
  "talkativeWorld =
     \<lparr>axiosGet = (\<lambda>h url. Data (Some [])),
      generateContent = (\<lambda>h p. GeneratedText elevenKeywords),
      mathRandom = (\<lambda>h. 0)\<rparr>"

definition photoPath :: jsstring where
  "photoPath = [0x2F, 0x50, 0x68, 0x6F, 0x74, 0x6F, 0x73, 0x2F, 0x61]"

definition photoWorld :: world where
  "photoWorld =
     \<lparr>axiosGet = (\<lambda>h url. Data (Some [Photo (PathString photoPath)])),
      generateContent = (\<lambda>h p. GenerateError),
      mathRandom = (\<lambda>h. 7)\<rparr>"

definition electionKeyword :: jsstring where
  "electionKeyword = [0x9078, 0x8209]"

definition recallWorld :: world where
  "recallWorld =
     \<lparr>axiosGet = (\<lambda>h url. if h = [] then Data (Some []) else Data (Some [Photo (PathString photoPath)])),
      generateContent = (\<lambda>h p. GeneratedText (electionKeyword @ [0xA])),
      mathRandom = (\<lambda>h. 7)\<rparr>"

definition securePhotoUrl :: jsstring where
  "securePhotoUrl = httpsScheme @ [0x63] @ photoPath"

text \<open>A configuration whose base URL is protocol-relative.\<close>

definition relativeConfig :: config where
  "relativeConfig =
     \<lparr>photoApiUrl = [0x68, 0x74, 0x74, 0x70, 0x73, 0x3A, 0x2F, 0x2F, 0x61, 0x2F, 0x70],
      photoBaseUrl = [0x2F, 0x2F, 0x63],
      koreanYuQuotes = [defaultFallbackQuote],
      koreanYuQuotesString = defaultFallbackQuote\<rparr>"

text \<open>The response generation yields a line that ends in a line feed; every search finds
  nothing and no keywords are generated.\<close>

definition lineWorld :: world where
  "lineWorld =
     \<lparr>axiosGet = (\<lambda>h url. Data (Some [])),
      generateContent =
        (\<lambda>h p. case p of TagResponsePrompt quotes tag \<Rightarrow> GeneratedText [0x41, 0xA]
                | _ \<Rightarrow> GenerateError),
      mathRandom = (\<lambda>h. 0)\<rparr>"

definition catTag :: jsstring where
  "catTag = [0x8C93]"

text \<open>Three keywords are generated. The search for the tag finds nothing, the search for
  the first keyword fails with an error status, and every later search finds one photo.\<close>

definition threeKeywords :: jsstring where
  "threeKeywords = [0x4E00, 0x2C, 0x4E8C, 0x2C, 0x4E09]"

definition orderedWorld :: world where
  "orderedWorld =
     \<lparr>axiosGet =
        (\<lambda>h url. if h = [] then Data (Some [])
                 else if length h = 2 then GetError HasResponse
                 else Data (Some [Photo (PathString photoPath)])),
      generateContent =
        (\<lambda>h p. case p of TagKeywordPrompt tag \<Rightarrow> GeneratedText threeKeywords
                | _ \<Rightarrow> GenerateError),
      mathRandom = (\<lambda>h. 0)\<rparr>"

text \<open>A configuration whose base URL is already secure.\<close>

definition secureConfig :: config where
  "secureConfig =
     \<lparr>photoApiUrl = [0x68, 0x74, 0x74, 0x70, 0x73, 0x3A, 0x2F, 0x2F, 0x61, 0x2F, 0x70],
      photoBaseUrl = [0x68, 0x74, 0x74, 0x70, 0x73, 0x3A, 0x2F, 0x2F, 0x63],
      koreanYuQuotes = [defaultFallbackQuote],
      koreanYuQuotesString = defaultFallbackQuote\<rparr>"

section \<open>Running the handler\<close>

text \<open>The definitions the simplifier unfolds to run the handler on a concrete event.\<close>

lemmas string_defs =
  trim_def isWhiteSpace_def startsWith_def comma_def leadComma_def leadSpace_def greeting_def
  quoteCommand1_def quoteCommand2_def photosPrefix_def httpsScheme_def httpScheme_def
  searchQuery_def denylisted_def sentinel_def uriUnreserved_def hexDigit_def percentByte_def
  utf8_def percentEncode_def isHighSurrogate_def isLowSurrogate_def

lemmas handler_defs =
  tagToSearch_def tagKeywordOk_def isCjkOrDigit_def tagKeywords_def freeTextKeywords_def
  getRandomQuote_def secureImageUrl_def imageMessage_def tagImageReply_def searchUrl_def
  photosOf_def fetchAndSelect_def greetingErrorMessage_def greetingCommand_def quoteCommand_def
  generateKeywords_def respondInStyle_def tagFallback_def tagErrorMessage_def tagPath_def
  freeTextFallback_def freeTextPath_def unmatchedText_def supported_def fixedFallback_def
  Let_def

lemmas world_defs =
  plainConfig_def silentWorld_def elevenKeywords_def talkativeWorld_def photoPath_def
  photoWorld_def electionKeyword_def recallWorld_def securePhotoUrl_def
  relativeConfig_def lineWorld_def catTag_def threeKeywords_def orderedWorld_def
  secureConfig_def

section \<open>Strings: trimming and splitting\<close>

lemma trim_front: "dropWhile isWhiteSpace (trim s) = trim s"
proof -
  define a where "a = dropWhile isWhiteSpace s"
  define b where "b = dropWhile isWhiteSpace (rev a)"
  have t: "trim s = rev b" by (simp add: trim_def a_def b_def)
  show ?thesis
  proof (cases "b = []")
    case True
    then show ?thesis by (simp add: t)
  next
    case False
    have "rev a = takeWhile isWhiteSpace (rev a) @ b" by (simp add: b_def)
    with False have "last (rev a) = last b" by (metis last_appendR)
    moreover from False have "a \<noteq> []" by (auto simp: b_def)
    ultimately have "last b = hd a" by (simp add: last_rev)
    moreover from \<open>a \<noteq> []\<close> have "\<not> isWhiteSpace (hd a)"
      unfolding a_def by (metis hd_dropWhile)
    ultimately have "\<not> isWhiteSpace (hd (rev b))" using False by (simp add: hd_rev)
    with False show ?thesis by (cases "rev b") (auto simp: t)
  qed
qed

lemma trim_idem: "trim (trim s) = trim s"
proof -
  have "trim (trim s) = rev (dropWhile isWhiteSpace (rev (trim s)))"
    by (simp add: trim_def[of "trim s"] trim_front)
  also have "\<dots> = trim s" by (simp add: trim_def)
  finally show ?thesis .
qed

lemma trim_blank: "list_all isWhiteSpace s \<Longrightarrow> trim s = []"
  by (auto simp: trim_def list_all_iff dest: set_dropWhileD)

lemma split_str_not_Nil: "split_str sep s \<noteq> []"
  by (induction s) (auto split: list.splits)

section \<open>Keywords of the free-text path\<close>

text \<open>
  C3, as amended. In a one-to-one chat, every keyword kept from the generated text is
  non-empty, is already trimmed and is not equal to the persona's name.
\<close>

theorem free_text_keywords_filtered:
  "k \<in> set (generateKeywords w (MessageKeywordPrompt messageText) freeTextKeywords h)
   \<Longrightarrow> k \<noteq> [] \<and> trim k = k \<and> k \<noteq> denylisted"
  by (auto simp: generateKeywords_def freeTextKeywords_def trim_idem Let_def
           split: generateResult.splits if_splits)

theorem free_text_keywords_filtered_witness:
  "[0x97D3, 0x570B, 0x745C, 0x5E02, 0x9577]
     \<in> set (generateKeywords talkativeWorld (MessageKeywordPrompt [0x48, 0x69]) freeTextKeywords [])
   \<and> trim [0x97D3, 0x570B, 0x745C, 0x5E02, 0x9577] = [0x97D3, 0x570B, 0x745C, 0x5E02, 0x9577]"
  using free_text_keywords_filtered
    [of "[0x97D3, 0x570B, 0x745C, 0x5E02, 0x9577]" talkativeWorld "[0x48, 0x69]" "[]"]
  by (simp add: generateKeywords_def talkativeWorld_def elevenKeywords_def freeTextKeywords_def
        trim_def isWhiteSpace_def comma_def denylisted_def)

text \<open>
  C3 as the specification states it fails: a generated text with eleven pieces yields
  eleven keywords, and the first of them contains the persona's name.
\<close>

theorem free_text_keywords_counterexample:
  "length (generateKeywords talkativeWorld (MessageKeywordPrompt [0x48, 0x69]) freeTextKeywords []) = 11
   \<and> includes_str
        (hd (generateKeywords talkativeWorld (MessageKeywordPrompt [0x48, 0x69]) freeTextKeywords []))
        denylisted"
  by (simp add: generateKeywords_def talkativeWorld_def elevenKeywords_def freeTextKeywords_def
        trim_def isWhiteSpace_def comma_def denylisted_def)

section \<open>A lead-in without a tag\<close>

lemma tagToSearch_lead_only:
  assumes "lead = leadComma \<or> lead = leadSpace" and "list_all isWhiteSpace ws"
  shows "tagToSearch (lead @ ws) = Some []"
  using assms by (auto simp: tagToSearch_def startsWith_def leadComma_def leadSpace_def trim_blank)

text \<open>
  C10. When the trimmed text is a lead-in followed by nothing but whitespace, the tag is
  the empty string and the handler does not take the tag path: it does what it does for an
  unmatched text, which is the free-text path in a one-to-one chat and nothing at all in
  a group or room. (After trimming only the lead-in with the full-width comma can be left
  in this form; a text that ends in the lead-in's space loses it.)
\<close>

theorem lead_in_without_tag_is_unmatched:
  assumes "trim text = lead @ ws"
    and "lead = leadComma \<or> lead = leadSpace"
    and "list_all isWhiteSpace ws"
  shows "tagToSearch (trim text) = Some []
    \<and> handleEvent w cfg (MessageEvent src tok (TextMessage text)) =
        (if src = User then freeTextPath w cfg tok (trim text) [] else [])"
proof -
  have tag: "tagToSearch (trim text) = Some []"
    using assms by (simp add: tagToSearch_lead_only)
  have "isWhiteSpace c" if "c \<in> set ws" for c
    using assms(3) that by (simp add: list_all_iff)
  moreover have "\<not> isWhiteSpace 0x91D1" "\<not> isWhiteSpace 0x8A9E"
    by (simp_all add: isWhiteSpace_def)
  ultimately have ws: "0x91D1 \<notin> set ws" "0x8A9E \<notin> set ws"
    by blast+
  have ng: "trim text \<noteq> greeting"
    using assms(1,2) by (auto simp: greeting_def leadComma_def leadSpace_def)
  have nq: "trim text \<noteq> quoteCommand1" "trim text \<noteq> quoteCommand2"
    using assms(1,2) ws by (auto simp: quoteCommand1_def quoteCommand2_def leadComma_def leadSpace_def)
  show ?thesis
    using tag ng nq by (auto simp: unmatchedText_def supported_def Let_def)
qed

theorem lead_in_without_tag_is_unmatched_witness:
  "trim [0x20, 0x9662, 0x9577, 0xFF0C, 0x3000] = leadComma @ []
   \<and> tagToSearch (trim [0x20, 0x9662, 0x9577, 0xFF0C, 0x3000]) = Some []
   \<and> handleEvent silentWorld plainConfig
        (MessageEvent Group [0x74] (TextMessage [0x20, 0x9662, 0x9577, 0xFF0C, 0x3000])) = []"
proof -
  have t: "trim [0x20, 0x9662, 0x9577, 0xFF0C, 0x3000] = leadComma @ []"
    by (simp add: trim_def isWhiteSpace_def leadComma_def)
  show ?thesis
    using t lead_in_without_tag_is_unmatched
      [of "[0x20, 0x9662, 0x9577, 0xFF0C, 0x3000]" leadComma "[]" silentWorld plainConfig
          Group "[0x74]"]
    by simp
qed

text \<open>
  The lead-in that ends in a space cannot be left with nothing behind it: trimming the
  message removes that space too, the message is then no lead-in at all, no tag is
  extracted, and the handler treats the text as unmatched just the same.
\<close>

lemma lead_in_space_is_trimmed_away:
  assumes "list_all isWhiteSpace ws"
  shows "trim (leadSpace @ ws) = [0x9662, 0x9577]
    \<and> tagToSearch (trim (leadSpace @ ws)) = None
    \<and> handleEvent w cfg (MessageEvent src tok (TextMessage (leadSpace @ ws))) =
        (if src = User then freeTextPath w cfg tok [0x9662, 0x9577] [] else [])"
proof -
  have "dropWhile isWhiteSpace (rev ws @ [0x20, 0x9577, 0x9662]) = [0x9577, 0x9662]"
    using assms by (simp add: dropWhile_append list_all_iff isWhiteSpace_def)
  then have t: "trim (leadSpace @ ws) = [0x9662, 0x9577]"
    by (simp add: trim_def leadSpace_def isWhiteSpace_def)
  have tag: "tagToSearch [0x9662, 0x9577] = None"
    by (simp add: tagToSearch_def startsWith_def leadComma_def leadSpace_def)
  show ?thesis
    using t tag
    by (auto simp: unmatchedText_def supported_def greeting_def quoteCommand1_def quoteCommand2_def)
qed

section \<open>Every path ends in one reply\<close>

lemma quiet_simps [simp]:
  "quiet []" "quiet (e # es) \<longleftrightarrow> \<not> isReply e \<and> quiet es"
  "quiet (es @ fs) \<longleftrightarrow> quiet es \<and> quiet fs"
  by (auto simp: quiet_def)

lemma finishes_text: "quiet es \<Longrightarrow> finishes cfg mk tok h (h @ es @ [Reply tok [Text t]])"
  unfolding finishes_def by blast

lemma finishes_image:
  assumes "quiet es" and "h @ es = pre @ [Selected (Photo (PathString p))]"
    and "p \<noteq> []" and "startsWith p photosPrefix"
  shows "finishes cfg mk tok h (h @ es @ [Reply tok (mk (secureImageUrl cfg p))])"
  unfolding finishes_def using assms by blast

lemma finishes_extend:
  assumes "quiet es" and "finishes cfg mk tok (h @ es) h'"
  shows "finishes cfg mk tok h h'"
proof -
  from assms(2) obtain fs msgs where
    h': "h' = (h @ es) @ fs @ [Reply tok msgs]" and q: "quiet fs" and
    m: "(\<exists>t. msgs = [Text t]) \<or>
         (\<exists>pre p. (h @ es) @ fs = pre @ [Selected (Photo (PathString p))] \<and> p \<noteq> [] \<and>
            startsWith p photosPrefix \<and> msgs = mk (secureImageUrl cfg p))"
    unfolding finishes_def by blast
  have "h' = h @ (es @ fs) @ [Reply tok msgs]" using h' by simp
  moreover have "quiet (es @ fs)" using assms(1) q by simp
  moreover have "(\<exists>t. msgs = [Text t]) \<or>
         (\<exists>pre p. h @ (es @ fs) = pre @ [Selected (Photo (PathString p))] \<and> p \<noteq> [] \<and>
            startsWith p photosPrefix \<and> msgs = mk (secureImageUrl cfg p))"
    using m by simp
  ultimately show ?thesis unfolding finishes_def by blast
qed

lemma checkPath_Valid:
  "checkPath r = ValidPath p \<longleftrightarrow> r = Photo (PathString p) \<and> p \<noteq> [] \<and> startsWith p photosPrefix"
  by (cases r rule: checkPath.cases) auto

lemma checkPath_not_fetch [simp]:
  "checkPath r \<noteq> FetchFailed e" "checkPath r \<noteq> NoPhotos"
  by (cases r rule: checkPath.cases; simp)+

lemma fetchAndSelect_cases:
  obtains (failed) e where "axiosGet w h url = GetError e"
      and "fetchAndSelect w url h = (h @ [Get url], FetchFailed e)"
  | (none) d where "axiosGet w h url = Data d" and "photosOf d = []"
      and "fetchAndSelect w url h = (h @ [Get url], NoPhotos)"
  | (picked) d r where "axiosGet w h url = Data d" and "photosOf d \<noteq> []"
      and "r = photosOf d ! (mathRandom w (h @ [Get url]) mod length (photosOf d))"
      and "fetchAndSelect w url h = (h @ [Get url, Selected r], checkPath r)"
  by (cases "axiosGet w h url") (auto simp: fetchAndSelect_def Let_def)

lemma keywordLoop_finishes:
  "keywordLoop w cfg tok mk ks h = (h', b) \<Longrightarrow>
     (if b then finishes cfg mk tok h h' else (\<exists>es. h' = h @ es \<and> quiet es))"
proof (induction ks arbitrary: h)
  case Nil
  then show ?case by auto
next
  case (Cons k ks)
  show ?case
  proof (cases "encodeURIComponent k")
    case None
    with Cons show ?thesis by simp
  next
    case (Some q)
    show ?thesis
    proof (cases rule: fetchAndSelect_cases[of w h "searchUrl cfg q"])
      case (failed e)
      with Cons.prems Some have "keywordLoop w cfg tok mk ks (h @ [Get (searchUrl cfg q)]) = (h', b)"
        by simp
      from Cons.IH[OF this] show ?thesis
        by (auto intro: finishes_extend[where es="[Get (searchUrl cfg q)]"])
    next
      case (none d)
      with Cons.prems Some have "keywordLoop w cfg tok mk ks (h @ [Get (searchUrl cfg q)]) = (h', b)"
        by simp
      from Cons.IH[OF this] show ?thesis
        by (auto intro: finishes_extend[where es="[Get (searchUrl cfg q)]"])
    next
      case (picked d r)
      show ?thesis
      proof (cases "\<exists>p. checkPath r = ValidPath p")
        case True
        then obtain p where p: "checkPath r = ValidPath p" by blast
        with Cons.prems Some picked have
          "h' = h @ [Get (searchUrl cfg q), Selected r] @ [Reply tok (mk (secureImageUrl cfg p))]" "b"
          by auto
        moreover from p have "r = Photo (PathString p)" "p \<noteq> []" "startsWith p photosPrefix"
          by (simp_all add: checkPath_Valid)
        ultimately show ?thesis
          using finishes_image[of "[Get (searchUrl cfg q), Selected r]" h "h @ [Get (searchUrl cfg q)]" p cfg mk tok]
          by simp
      next
        case False
        with Cons.prems Some picked have
          "keywordLoop w cfg tok mk ks (h @ [Get (searchUrl cfg q), Selected r]) = (h', b)"
          by (cases "checkPath r") auto
        from Cons.IH[OF this] show ?thesis
          by (auto intro: finishes_extend[where es="[Get (searchUrl cfg q), Selected r]"])
      qed
    qed
  qed
qed

lemma respondInStyle_finishes: "finishes cfg mk tok h (respondInStyle w tok p seed h)"
proof -
  have "\<exists>t. respondInStyle w tok p seed h = h @ [Generate p] @ [Reply tok [Text t]]"
    by (auto simp: respondInStyle_def Let_def split: generateResult.splits)
  then obtain t where "respondInStyle w tok p seed h = h @ [Generate p] @ [Reply tok [Text t]]" ..
  then show ?thesis using finishes_text[of "[Generate p]" cfg mk tok h t] by simp
qed

lemma loop_then_respond_finishes:
  assumes "looped = keywordLoop w cfg tok mk ks (h @ [Generate kp])"
  shows "finishes cfg mk tok h
           (if snd looped then fst looped else respondInStyle w tok rp seed (fst looped))"
proof -
  obtain h' b where l: "keywordLoop w cfg tok mk ks (h @ [Generate kp]) = (h', b)"
    by (cases "keywordLoop w cfg tok mk ks (h @ [Generate kp])")
  show ?thesis
  proof (cases b)
    case True
    with keywordLoop_finishes[OF l] have "finishes cfg mk tok (h @ [Generate kp]) h'" by simp
    then have "finishes cfg mk tok h h'" by (rule finishes_extend[rotated]) simp
    with True l assms show ?thesis by simp
  next
    case False
    with keywordLoop_finishes[OF l] obtain es where es: "h' = (h @ [Generate kp]) @ es" "quiet es"
      by auto
    have "finishes cfg mk tok h' (respondInStyle w tok rp seed h')"
      by (rule respondInStyle_finishes)
    then have "finishes cfg mk tok (h @ ([Generate kp] @ es)) (respondInStyle w tok rp seed h')"
      by (simp add: es(1))
    then have "finishes cfg mk tok h (respondInStyle w tok rp seed h')"
      by (rule finishes_extend[rotated]) (simp add: es(2))
    with False l assms show ?thesis by simp
  qed
qed

lemma tagFallback_finishes: "finishes cfg (tagImageReply tag) tok h (tagFallback w cfg tok tag h)"
  unfolding tagFallback_def Let_def by (rule loop_then_respond_finishes) simp

lemma freeTextFallback_finishes:
  "finishes cfg (\<lambda>url. [imageMessage url]) tok h (freeTextFallback w cfg tok messageText h)"
  unfolding freeTextFallback_def Let_def by (rule loop_then_respond_finishes) simp

lemma after_fetch_finishes:
  assumes "fetchAndSelect w url h = (h', s)"
    and "\<And>p. s = ValidPath p \<Longrightarrow> result = h' @ [Reply tok (mk (secureImageUrl cfg p))]"
    and "\<forall>p. s \<noteq> ValidPath p \<Longrightarrow> finishes cfg mk tok h' result"
  shows "finishes cfg mk tok h result"
proof (cases rule: fetchAndSelect_cases[of w h url])
  case (failed e)
  with assms(1) have h': "h' = h @ [Get url]" and "\<forall>p. s \<noteq> ValidPath p" by auto
  from assms(3)[OF this(2)] have "finishes cfg mk tok (h @ [Get url]) result"
    unfolding h' .
  then show ?thesis by (rule finishes_extend[rotated]) simp
next
  case (none d)
  with assms(1) have h': "h' = h @ [Get url]" and "\<forall>p. s \<noteq> ValidPath p" by auto
  from assms(3)[OF this(2)] have "finishes cfg mk tok (h @ [Get url]) result"
    unfolding h' .
  then show ?thesis by (rule finishes_extend[rotated]) simp
next
  case (picked d r)
  with assms(1) have h': "h' = h @ [Get url, Selected r]" and s: "s = checkPath r" by auto
  show ?thesis
  proof (cases "\<exists>p. s = ValidPath p")
    case True
    then obtain p where p: "s = ValidPath p" by blast
    with s have "checkPath r = ValidPath p" by simp
    then have "r = Photo (PathString p)" "p \<noteq> []" "startsWith p photosPrefix"
      by (simp_all add: checkPath_Valid)
    with assms(2)[OF p] h' show ?thesis
      using finishes_image[of "[Get url, Selected r]" h "h @ [Get url]" p cfg mk tok] by simp
  next
    case False
    then have "\<forall>p. s \<noteq> ValidPath p" by simp
    from assms(3)[OF this] have "finishes cfg mk tok (h @ [Get url, Selected r]) result"
      unfolding h' .
    then show ?thesis by (rule finishes_extend[rotated]) simp
  qed
qed

lemma finishes_text_now: "finishes cfg mk tok h (h @ [Reply tok [Text t]])"
  using finishes_text[of "[]" cfg mk tok h t] by simp

lemma greetingCommand_finishes:
  "finishes cfg (\<lambda>url. [imageMessage url]) tok h (greetingCommand w cfg tok h)"
proof -
  obtain h' s where f: "fetchAndSelect w (photoApiUrl cfg) h = (h', s)"
    by (cases "fetchAndSelect w (photoApiUrl cfg) h")
  show ?thesis
  proof (rule after_fetch_finishes[OF f])
    fix p assume "s = ValidPath p"
    with f show "greetingCommand w cfg tok h = h' @ [Reply tok [imageMessage (secureImageUrl cfg p)]]"
      by (simp add: greetingCommand_def)
  next
    assume "\<forall>p. s \<noteq> ValidPath p"
    then show "finishes cfg (\<lambda>url. [imageMessage url]) tok h' (greetingCommand w cfg tok h)"
      using f by (cases s) (auto simp: greetingCommand_def intro: finishes_text_now)
  qed
qed

lemma quoteCommand_finishes: "finishes cfg mk tok h (quoteCommand w cfg tok h)"
  by (simp add: quoteCommand_def finishes_text_now)

lemma tagPath_finishes: "finishes cfg (tagImageReply tag) tok h (tagPath w cfg tok tag h)"
proof (cases "encodeURIComponent tag")
  case None
  then show ?thesis by (simp add: tagPath_def finishes_text_now)
next
  case (Some q)
  obtain h' s where f: "fetchAndSelect w (searchUrl cfg q) h = (h', s)"
    by (cases "fetchAndSelect w (searchUrl cfg q) h")
  show ?thesis
  proof (rule after_fetch_finishes[OF f])
    fix p assume "s = ValidPath p"
    with f Some show "tagPath w cfg tok tag h = h' @ [Reply tok (tagImageReply tag (secureImageUrl cfg p))]"
      by (simp add: tagPath_def)
  next
    assume "\<forall>p. s \<noteq> ValidPath p"
    then show "finishes cfg (tagImageReply tag) tok h' (tagPath w cfg tok tag h)"
      using f Some
      by (cases s) (auto simp: tagPath_def intro: finishes_text_now tagFallback_finishes)
  qed
qed

lemma freeTextPath_finishes:
  "finishes cfg (\<lambda>url. [imageMessage url]) tok h (freeTextPath w cfg tok messageText h)"
proof (cases "encodeURIComponent messageText")
  case None
  then show ?thesis by (simp add: freeTextPath_def finishes_text_now)
next
  case (Some q)
  obtain h' s where f: "fetchAndSelect w (searchUrl cfg q) h = (h', s)"
    by (cases "fetchAndSelect w (searchUrl cfg q) h")
  show ?thesis
  proof (rule after_fetch_finishes[OF f])
    fix p assume "s = ValidPath p"
    with f Some show "freeTextPath w cfg tok messageText h
        = h' @ [Reply tok [imageMessage (secureImageUrl cfg p)]]"
      by (simp add: freeTextPath_def)
  next
    assume "\<forall>p. s \<noteq> ValidPath p"
    then show "finishes cfg (\<lambda>url. [imageMessage url]) tok h' (freeTextPath w cfg tok messageText h)"
      using f Some
      by (cases s) (auto simp: freeTextPath_def intro: finishes_text_now freeTextFallback_finishes)
  qed
qed

lemma tagToSearch_greeting: "tagToSearch greeting = None"
  by (simp add: tagToSearch_def startsWith_def greeting_def leadComma_def leadSpace_def)

lemma sentinel_not_empty: "sentinel \<noteq> []" "[] \<noteq> sentinel"
  by (simp_all add: sentinel_def)

lemma expected_single:
  "tagToSearch (trim text) \<noteq> Some sentinel
   \<Longrightarrow> expectedImageReply text = (\<lambda>url. [imageMessage url])"
  by (auto simp: expectedImageReply_def imageMessage_def)

lemma expected_tag:
  "tagToSearch (trim text) = Some tag \<Longrightarrow> expectedImageReply text = tagImageReply tag"
  by (auto simp: expectedImageReply_def tagImageReply_def imageMessage_def)

lemma handleEvent_suppressed: "suppressed ev \<Longrightarrow> handleEvent w cfg ev = []"
proof (cases ev rule: suppressed.cases)
  case (3 src tok body)
  assume "suppressed ev"
  with 3 show ?thesis
    by (auto simp: unmatched_def unmatchedText_def Let_def)
qed simp_all

lemma handleEvent_finishes:
  assumes "\<not> suppressed (MessageEvent src tok (TextMessage text))"
  shows "finishes cfg (expectedImageReply text) tok []
           (handleEvent w cfg (MessageEvent src tok (TextMessage text)))"
proof -
  from assms have sup: "supported src" by auto
  consider (greetC) "trim text = greeting"
    | (quoteC) "trim text \<noteq> greeting" "trim text = quoteCommand1 \<or> trim text = quoteCommand2"
    | (tagC) tag where "trim text \<noteq> greeting" "trim text \<noteq> quoteCommand1"
        "trim text \<noteq> quoteCommand2" "tagToSearch (trim text) = Some tag" "tag \<noteq> []"
    | (freeC) "unmatched (trim text)"
    unfolding unmatched_def by (cases "tagToSearch (trim text)") auto
  then show ?thesis
  proof cases
    case greetC
    then have "expectedImageReply text = (\<lambda>url. [imageMessage url])"
      by (intro expected_single) (simp add: tagToSearch_greeting)
    with greetC sup show ?thesis by (simp add: greetingCommand_finishes)
  next
    case quoteC
    with sup show ?thesis by (auto simp: quoteCommand_finishes)
  next
    case tagC
    with sup show ?thesis by (simp add: expected_tag tagPath_finishes)
  next
    case freeC
    with assms sup have user: "src = User" by auto
    from freeC have "tagToSearch (trim text) \<noteq> Some sentinel"
      by (auto simp: unmatched_def sentinel_not_empty)
    then have "expectedImageReply text = (\<lambda>url. [imageMessage url])" by (rule expected_single)
    with freeC user sup show ?thesis
      by (auto simp: unmatched_def unmatchedText_def freeTextPath_finishes)
  qed
qed

lemma quiet_snoc_split:
  assumes "quiet es" and "es @ [x] = pre @ Reply tok msgs # post"
  shows "pre = es \<and> post = [] \<and> x = Reply tok msgs"
proof (cases post rule: rev_cases)
  case Nil
  with assms(2) show ?thesis by simp
next
  case (snoc post' y)
  with assms(2) have "es = pre @ Reply tok msgs # post'" by simp
  with assms(1) show ?thesis by simp
qed

lemma quiet_filter: "quiet es \<Longrightarrow> filter isReply es = []"
  by (induction es) auto

text \<open>
  C1. The handler calls \<^verbatim>\<open>replyMessage\<close> exactly once for a text message from a user,
  group or room, unless the text is unmatched and comes from a group or room; it never
  calls it for any other event. So no event is replied to twice.
\<close>

theorem at_most_one_reply:
  "length (filter isReply (handleEvent w cfg ev)) = (if suppressed ev then 0 else 1)"
proof (cases "suppressed ev")
  case True
  then show ?thesis by (simp add: handleEvent_suppressed)
next
  case False
  then obtain src tok body where ev: "ev = MessageEvent src tok (TextMessage body)"
    by (cases ev rule: suppressed.cases) auto
  from handleEvent_finishes[of src tok body cfg w] False ev
  obtain es msgs where "handleEvent w cfg ev = es @ [Reply tok msgs]" "quiet es"
    unfolding finishes_def by auto
  with False show ?thesis by (simp add: quiet_filter)
qed

text \<open>
  C7. On every path, an image in a reply comes from the record selected just before the
  reply: that record's path is a string that starts with \<open>/Photos/\<close>, and both URLs of the
  image are built from it. A selected record whose path is absent or does not start with
  the prefix is therefore never sent as an image.
\<close>

theorem image_reply_from_valid_path:
  assumes "handleEvent w cfg ev = pre @ Reply tok msgs # post"
    and "Image u v \<in> set msgs"
  shows "\<exists>pre' p. pre = pre' @ [Selected (Photo (PathString p))] \<and> p \<noteq> [] \<and>
           startsWith p photosPrefix \<and> u = secureImageUrl cfg p \<and> v = secureImageUrl cfg p"
proof -
  from assms(1) have ns: "\<not> suppressed ev"
    using handleEvent_suppressed[of ev w cfg] by auto
  then obtain src tok0 body where ev: "ev = MessageEvent src tok0 (TextMessage body)"
    by (cases ev rule: suppressed.cases) auto
  from handleEvent_finishes[of src tok0 body cfg w] ns ev
  obtain es msgs0 where h: "handleEvent w cfg ev = es @ [Reply tok0 msgs0]" and q: "quiet es"
    and m: "(\<exists>t. msgs0 = [Text t]) \<or>
         (\<exists>pre p. es = pre @ [Selected (Photo (PathString p))] \<and> p \<noteq> [] \<and>
            startsWith p photosPrefix \<and> msgs0 = expectedImageReply body (secureImageUrl cfg p))"
    unfolding finishes_def by auto
  from h assms(1) have "es @ [Reply tok0 msgs0] = pre @ Reply tok msgs # post" by (simp only:)
  from quiet_snoc_split[OF q this] have "pre = es" "msgs = msgs0" by auto
  with m assms(2) show ?thesis
    by (auto simp: expectedImageReply_def split: if_splits)
qed

text \<open>
  C8. A reply with an image is the image followed by the fixed text exactly when the tag
  extracted from the message is the sentinel, whichever search found the photo; every
  other reply with an image is the single image.
\<close>

theorem image_reply_payloads:
  assumes "handleEvent w cfg (MessageEvent src tok (TextMessage text)) = pre @ Reply tok' msgs # post"
    and "\<exists>m \<in> set msgs. isImage m"
  shows "\<exists>url. msgs = (if tagToSearch (trim text) = Some sentinel
                       then [Image url url, Text recallText] else [Image url url])"
proof -
  let ?ev = "MessageEvent src tok (TextMessage text)"
  from assms(1) have ns: "\<not> suppressed ?ev"
    using handleEvent_suppressed[of ?ev w cfg] by auto
  from handleEvent_finishes[OF ns, of cfg w]
  obtain es msgs0 where h: "handleEvent w cfg ?ev = es @ [Reply tok msgs0]" and q: "quiet es"
    and m: "(\<exists>t. msgs0 = [Text t]) \<or>
         (\<exists>p. msgs0 = expectedImageReply text (secureImageUrl cfg p))"
    unfolding finishes_def by auto
  from h assms(1) have "es @ [Reply tok msgs0] = pre @ Reply tok' msgs # post" by (simp only:)
  from quiet_snoc_split[OF q this] have "msgs = msgs0" by auto
  with m assms(2) show ?thesis
    by (auto simp: expectedImageReply_def)
qed

theorem at_most_one_reply_witness:
  "\<not> suppressed (MessageEvent Room [0x74] (TextMessage greeting))
   \<and> length (filter isReply
         (handleEvent photoWorld plainConfig (MessageEvent Room [0x74] (TextMessage greeting)))) = 1
   \<and> suppressed (MessageEvent Room [0x74] (TextMessage [0x48, 0x69]))
   \<and> length (filter isReply
         (handleEvent photoWorld plainConfig (MessageEvent Room [0x74] (TextMessage [0x48, 0x69])))) = 0"
  using at_most_one_reply[of photoWorld plainConfig "MessageEvent Room [0x74] (TextMessage greeting)"]
    at_most_one_reply[of photoWorld plainConfig "MessageEvent Room [0x74] (TextMessage [0x48, 0x69])"]
  by (simp add: unmatched_def string_defs handler_defs)

theorem image_reply_from_valid_path_witness:
  "handleEvent photoWorld plainConfig (MessageEvent Room [0x74] (TextMessage greeting))
     = [Get (photoApiUrl plainConfig), Selected (Photo (PathString photoPath))]
         @ Reply [0x74] [Image securePhotoUrl securePhotoUrl] # []
   \<and> startsWith photoPath photosPrefix
   \<and> securePhotoUrl = secureImageUrl plainConfig photoPath"
proof -
  have run: "handleEvent photoWorld plainConfig (MessageEvent Room [0x74] (TextMessage greeting))
     = [Get (photoApiUrl plainConfig), Selected (Photo (PathString photoPath))]
         @ Reply [0x74] [Image securePhotoUrl securePhotoUrl] # []"
    by (simp add: string_defs handler_defs world_defs)
  from image_reply_from_valid_path[OF run, of securePhotoUrl securePhotoUrl] run
  show ?thesis by auto
qed

theorem image_reply_payloads_witness:
  "handleEvent recallWorld plainConfig (MessageEvent Group [0x74] (TextMessage (leadSpace @ sentinel)))
     = [Get (searchUrl plainConfig (percentEncode 0x7F77 @ percentEncode 0x514D)),
        Generate (TagKeywordPrompt sentinel),
        Get (searchUrl plainConfig (percentEncode 0x9078 @ percentEncode 0x8209)),
        Selected (Photo (PathString photoPath))]
         @ Reply [0x74] [Image securePhotoUrl securePhotoUrl, Text recallText] # []
   \<and> tagToSearch (trim (leadSpace @ sentinel)) = Some sentinel"
proof -
  have run: "handleEvent recallWorld plainConfig (MessageEvent Group [0x74] (TextMessage (leadSpace @ sentinel)))
     = [Get (searchUrl plainConfig (percentEncode 0x7F77 @ percentEncode 0x514D)),
        Generate (TagKeywordPrompt sentinel),
        Get (searchUrl plainConfig (percentEncode 0x9078 @ percentEncode 0x8209)),
        Selected (Photo (PathString photoPath))]
         @ Reply [0x74] [Image securePhotoUrl securePhotoUrl, Text recallText] # []"
    by (simp add: string_defs handler_defs world_defs)
  have "\<exists>m \<in> set [Image securePhotoUrl securePhotoUrl, Text recallText]. isImage m" by simp
  from image_reply_payloads[OF run this] run
  show ?thesis by (auto split: if_splits)
qed

section \<open>The greeting\<close>

lemma replaceFirst_prefix:
  "prefix pat s \<Longrightarrow> s \<noteq> [] \<Longrightarrow> replaceFirst s pat rep = rep @ drop (length pat) s"
  by (cases s) auto

lemma handleEvent_greeting:
  "supported src \<Longrightarrow> trim text = greeting \<Longrightarrow>
   handleEvent w cfg (MessageEvent src tok (TextMessage text)) = greetingCommand w cfg tok []"
  by simp

lemma fetchAndSelect_picked:
  assumes "axiosGet w h url = Data d" and "photosOf d \<noteq> []"
  shows "fetchAndSelect w url h =
           (h @ [Get url, Selected (photosOf d ! (mathRandom w (h @ [Get url]) mod length (photosOf d)))],
            checkPath (photosOf d ! (mathRandom w (h @ [Get url]) mod length (photosOf d))))"
  using assms by (simp add: fetchAndSelect_def Let_def)

lemma fetchAndSelect_none:
  assumes "axiosGet w h url = Data d" and "photosOf d = []"
  shows "fetchAndSelect w url h = (h @ [Get url], NoPhotos)"
  using assms by (simp add: fetchAndSelect_def Let_def)

lemma fetchAndSelect_failed:
  assumes "axiosGet w h url = GetError e"
  shows "fetchAndSelect w url h = (h @ [Get url], FetchFailed e)"
  using assms by (simp add: fetchAndSelect_def)

lemma replaceFirst_absent: "\<not> includes_str s pat \<Longrightarrow> replaceFirst s pat rep = s"
  by (induction s) auto

text \<open>
  C9, as amended. For the greeting with a non-empty catalog and a selected record whose
  path starts with \<open>/Photos/\<close>, the handler gets the catalog, selects and replies with
  exactly one image, whatever the configured base URL is. The image's URL is the base URL
  followed by the path when that already starts with \<open>https://\<close>, and otherwise that
  string with its first \<open>http://\<close> replaced by \<open>https://\<close>. So when the base URL starts
  with \<open>https://\<close> the URL is the base URL followed by the path; when it starts with
  \<open>http://\<close> that prefix is rewritten to \<open>https://\<close>; in both cases the URL starts with
  \<open>https://\<close>. When the base URL followed by the path neither starts with \<open>https://\<close>
  nor contains \<open>http://\<close>, the URL is left as it is and does not start with \<open>https://\<close>.
\<close>

theorem greeting_image_url:
  assumes "supported src" and "trim text = greeting"
    and "axiosGet w [] (photoApiUrl cfg) = Data d" and "photosOf d \<noteq> []"
    and "photosOf d ! (mathRandom w [Get (photoApiUrl cfg)] mod length (photosOf d))
           = Photo (PathString p)"
    and "startsWith p photosPrefix"
  shows "\<exists>url. handleEvent w cfg (MessageEvent src tok (TextMessage text))
             = [Get (photoApiUrl cfg), Selected (Photo (PathString p)), Reply tok [Image url url]]
           \<and> url = (if startsWith (photoBaseUrl cfg @ p) httpsScheme then photoBaseUrl cfg @ p
                    else replaceFirst (photoBaseUrl cfg @ p) httpScheme httpsScheme)
           \<and> (startsWith (photoBaseUrl cfg) httpsScheme \<longrightarrow>
                url = photoBaseUrl cfg @ p \<and> startsWith url httpsScheme)
           \<and> (startsWith (photoBaseUrl cfg) httpScheme \<longrightarrow>
                url = httpsScheme @ drop (length httpScheme) (photoBaseUrl cfg @ p) \<and>
                startsWith url httpsScheme)
           \<and> (\<not> startsWith (photoBaseUrl cfg @ p) httpsScheme \<and>
               \<not> includes_str (photoBaseUrl cfg @ p) httpScheme \<longrightarrow>
                url = photoBaseUrl cfg @ p \<and> \<not> startsWith url httpsScheme)"
proof -
  let ?u = "secureImageUrl cfg p"
  let ?b = "photoBaseUrl cfg"
  from assms(6) have pne: "p \<noteq> []" by (auto simp: startsWith_def photosPrefix_def)
  with assms(6) have valid: "checkPath (Photo (PathString p)) = ValidPath p" by simp
  have run: "handleEvent w cfg (MessageEvent src tok (TextMessage text))
      = [Get (photoApiUrl cfg), Selected (Photo (PathString p)), Reply tok [Image ?u ?u]]"
    using assms(1,2) fetchAndSelect_picked[OF assms(3,4)] assms(5) valid
    by (simp add: greetingCommand_def imageMessage_def)
  have gen: "?u = (if startsWith (?b @ p) httpsScheme then ?b @ p
                    else replaceFirst (?b @ p) httpScheme httpsScheme)"
    by (simp add: secureImageUrl_def)
  have sec: "startsWith ?b httpsScheme \<longrightarrow> ?u = ?b @ p \<and> startsWith ?u httpsScheme"
  proof
    assume "startsWith ?b httpsScheme"
    then have "startsWith (?b @ p) httpsScheme" by (auto simp: startsWith_def)
    then show "?u = ?b @ p \<and> startsWith ?u httpsScheme" by (simp add: secureImageUrl_def)
  qed
  have plain: "startsWith ?b httpScheme \<longrightarrow>
      ?u = httpsScheme @ drop (length httpScheme) (?b @ p) \<and> startsWith ?u httpsScheme"
  proof
    assume "startsWith ?b httpScheme"
    then have h': "prefix httpScheme (?b @ p)" by (auto simp: startsWith_def)
    then have "\<not> startsWith (?b @ p) httpsScheme"
      by (auto simp: startsWith_def httpScheme_def httpsScheme_def prefix_def)
    with h' pne have "?u = httpsScheme @ drop (length httpScheme) (?b @ p)"
      by (simp add: secureImageUrl_def replaceFirst_prefix)
    then show "?u = httpsScheme @ drop (length httpScheme) (?b @ p) \<and> startsWith ?u httpsScheme"
      by (simp add: startsWith_def)
  qed
  have other: "\<not> startsWith (?b @ p) httpsScheme \<and> \<not> includes_str (?b @ p) httpScheme \<longrightarrow>
      ?u = ?b @ p \<and> \<not> startsWith ?u httpsScheme"
    by (simp add: secureImageUrl_def replaceFirst_absent)
  show ?thesis
    by (rule exI[of _ ?u], intro conjI) (fact run, fact gen, fact sec, fact plain, fact other)
qed

theorem greeting_image_url_witness:
  "handleEvent photoWorld plainConfig (MessageEvent User [0x74] (TextMessage greeting))
     = [Get (photoApiUrl plainConfig), Selected (Photo (PathString photoPath)),
        Reply [0x74] [Image securePhotoUrl securePhotoUrl]]
   \<and> handleEvent photoWorld secureConfig (MessageEvent User [0x74] (TextMessage greeting))
     = [Get (photoApiUrl secureConfig), Selected (Photo (PathString photoPath)),
        Reply [0x74] [Image securePhotoUrl securePhotoUrl]]
   \<and> handleEvent photoWorld relativeConfig (MessageEvent User [0x74] (TextMessage greeting))
     = [Get (photoApiUrl relativeConfig), Selected (Photo (PathString photoPath)),
        Reply [0x74] [Image (photoBaseUrl relativeConfig @ photoPath)
                        (photoBaseUrl relativeConfig @ photoPath)]]
   \<and> startsWith (photoBaseUrl plainConfig) httpScheme
   \<and> startsWith (photoBaseUrl secureConfig) httpsScheme
   \<and> \<not> includes_str (photoBaseUrl relativeConfig @ photoPath) httpScheme
   \<and> startsWith securePhotoUrl httpsScheme"
proof -
  have hp: "startsWith (photoBaseUrl plainConfig) httpScheme"
    and hs: "startsWith (photoBaseUrl secureConfig) httpsScheme"
    and hr: "\<not> startsWith (photoBaseUrl relativeConfig @ photoPath) httpsScheme
             \<and> \<not> includes_str (photoBaseUrl relativeConfig @ photoPath) httpScheme"
    and su: "securePhotoUrl = httpsScheme @ drop (length httpScheme) (photoBaseUrl plainConfig @ photoPath)"
            "securePhotoUrl = photoBaseUrl secureConfig @ photoPath"
            "startsWith securePhotoUrl httpsScheme"
    by (simp_all add: string_defs world_defs)
  have "\<exists>url. handleEvent photoWorld plainConfig (MessageEvent User [0x74] (TextMessage greeting))
             = [Get (photoApiUrl plainConfig), Selected (Photo (PathString photoPath)),
                Reply [0x74] [Image url url]]
           \<and> url = (if startsWith (photoBaseUrl plainConfig @ photoPath) httpsScheme
                    then photoBaseUrl plainConfig @ photoPath
                    else replaceFirst (photoBaseUrl plainConfig @ photoPath) httpScheme httpsScheme)
           \<and> (startsWith (photoBaseUrl plainConfig) httpsScheme \<longrightarrow>
                url = photoBaseUrl plainConfig @ photoPath \<and> startsWith url httpsScheme)
           \<and> (startsWith (photoBaseUrl plainConfig) httpScheme \<longrightarrow>
                url = httpsScheme @ drop (length httpScheme) (photoBaseUrl plainConfig @ photoPath) \<and>
                startsWith url httpsScheme)
           \<and> (\<not> startsWith (photoBaseUrl plainConfig @ photoPath) httpsScheme \<and>
               \<not> includes_str (photoBaseUrl plainConfig @ photoPath) httpScheme \<longrightarrow>
                url = photoBaseUrl plainConfig @ photoPath \<and> \<not> startsWith url httpsScheme)"
    by (rule greeting_image_url[where d = "Some [Photo (PathString photoPath)]"])
       (simp_all add: supported_def photosOf_def photoWorld_def trim_def isWhiteSpace_def
          greeting_def startsWith_def photoPath_def photosPrefix_def)
  then obtain url where
    "handleEvent photoWorld plainConfig (MessageEvent User [0x74] (TextMessage greeting))
       = [Get (photoApiUrl plainConfig), Selected (Photo (PathString photoPath)),
          Reply [0x74] [Image url url]]"
    and "startsWith (photoBaseUrl plainConfig) httpScheme \<longrightarrow>
                url = httpsScheme @ drop (length httpScheme) (photoBaseUrl plainConfig @ photoPath) \<and>
                startsWith url httpsScheme"
    by blast
  with hp have a: "handleEvent photoWorld plainConfig (MessageEvent User [0x74] (TextMessage greeting))
     = [Get (photoApiUrl plainConfig), Selected (Photo (PathString photoPath)),
        Reply [0x74] [Image securePhotoUrl securePhotoUrl]]"
    by (simp only: su(1)[symmetric] simp_thms)
  have "\<exists>url. handleEvent photoWorld secureConfig (MessageEvent User [0x74] (TextMessage greeting))
             = [Get (photoApiUrl secureConfig), Selected (Photo (PathString photoPath)),
                Reply [0x74] [Image url url]]
           \<and> url = (if startsWith (photoBaseUrl secureConfig @ photoPath) httpsScheme
                    then photoBaseUrl secureConfig @ photoPath
                    else replaceFirst (photoBaseUrl secureConfig @ photoPath) httpScheme httpsScheme)
           \<and> (startsWith (photoBaseUrl secureConfig) httpsScheme \<longrightarrow>
                url = photoBaseUrl secureConfig @ photoPath \<and> startsWith url httpsScheme)
           \<and> (startsWith (photoBaseUrl secureConfig) httpScheme \<longrightarrow>
                url = httpsScheme @ drop (length httpScheme) (photoBaseUrl secureConfig @ photoPath) \<and>
                startsWith url httpsScheme)
           \<and> (\<not> startsWith (photoBaseUrl secureConfig @ photoPath) httpsScheme \<and>
               \<not> includes_str (photoBaseUrl secureConfig @ photoPath) httpScheme \<longrightarrow>
                url = photoBaseUrl secureConfig @ photoPath \<and> \<not> startsWith url httpsScheme)"
    by (rule greeting_image_url[where d = "Some [Photo (PathString photoPath)]"])
       (simp_all add: supported_def photosOf_def photoWorld_def trim_def isWhiteSpace_def
          greeting_def startsWith_def photoPath_def photosPrefix_def)
  then obtain url where
    "handleEvent photoWorld secureConfig (MessageEvent User [0x74] (TextMessage greeting))
       = [Get (photoApiUrl secureConfig), Selected (Photo (PathString photoPath)),
          Reply [0x74] [Image url url]]"
    and "startsWith (photoBaseUrl secureConfig) httpsScheme \<longrightarrow>
                url = photoBaseUrl secureConfig @ photoPath \<and> startsWith url httpsScheme"
    by blast
  with hs have b: "handleEvent photoWorld secureConfig (MessageEvent User [0x74] (TextMessage greeting))
     = [Get (photoApiUrl secureConfig), Selected (Photo (PathString photoPath)),
        Reply [0x74] [Image securePhotoUrl securePhotoUrl]]"
    by (simp only: su(2)[symmetric] simp_thms)
  have "\<exists>url. handleEvent photoWorld relativeConfig (MessageEvent User [0x74] (TextMessage greeting))
             = [Get (photoApiUrl relativeConfig), Selected (Photo (PathString photoPath)),
                Reply [0x74] [Image url url]]
           \<and> url = (if startsWith (photoBaseUrl relativeConfig @ photoPath) httpsScheme
                    then photoBaseUrl relativeConfig @ photoPath
                    else replaceFirst (photoBaseUrl relativeConfig @ photoPath) httpScheme httpsScheme)
           \<and> (startsWith (photoBaseUrl relativeConfig) httpsScheme \<longrightarrow>
                url = photoBaseUrl relativeConfig @ photoPath \<and> startsWith url httpsScheme)
           \<and> (startsWith (photoBaseUrl relativeConfig) httpScheme \<longrightarrow>
                url = httpsScheme @ drop (length httpScheme) (photoBaseUrl relativeConfig @ photoPath) \<and>
                startsWith url httpsScheme)
           \<and> (\<not> startsWith (photoBaseUrl relativeConfig @ photoPath) httpsScheme \<and>
               \<not> includes_str (photoBaseUrl relativeConfig @ photoPath) httpScheme \<longrightarrow>
                url = photoBaseUrl relativeConfig @ photoPath \<and> \<not> startsWith url httpsScheme)"
    by (rule greeting_image_url[where d = "Some [Photo (PathString photoPath)]"])
       (simp_all add: supported_def photosOf_def photoWorld_def trim_def isWhiteSpace_def
          greeting_def startsWith_def photoPath_def photosPrefix_def)
  then obtain url where
    "handleEvent photoWorld relativeConfig (MessageEvent User [0x74] (TextMessage greeting))
       = [Get (photoApiUrl relativeConfig), Selected (Photo (PathString photoPath)),
          Reply [0x74] [Image url url]]"
    and "\<not> startsWith (photoBaseUrl relativeConfig @ photoPath) httpsScheme \<and>
               \<not> includes_str (photoBaseUrl relativeConfig @ photoPath) httpScheme \<longrightarrow>
                url = photoBaseUrl relativeConfig @ photoPath \<and> \<not> startsWith url httpsScheme"
    by blast
  with hr have c: "handleEvent photoWorld relativeConfig (MessageEvent User [0x74] (TextMessage greeting))
     = [Get (photoApiUrl relativeConfig), Selected (Photo (PathString photoPath)),
        Reply [0x74] [Image (photoBaseUrl relativeConfig @ photoPath) (photoBaseUrl relativeConfig @ photoPath)]]"
    by (simp only: simp_thms)
  from a b c hp hs hr su(3) show ?thesis by blast
qed

text \<open>
  C9 as the specification states it fails for a base URL with neither prefix: the URL of
  the image is the base URL followed by the path and does not start with \<open>https://\<close>.
\<close>

theorem greeting_image_url_counterexample:
  "handleEvent photoWorld relativeConfig (MessageEvent User [0x74] (TextMessage greeting))
     = [Get (photoApiUrl relativeConfig), Selected (Photo (PathString photoPath)),
        Reply [0x74] [Image (photoBaseUrl relativeConfig @ photoPath)
                        (photoBaseUrl relativeConfig @ photoPath)]]
   \<and> startsWith photoPath photosPrefix
   \<and> \<not> startsWith (photoBaseUrl relativeConfig @ photoPath) httpsScheme"
  by (simp add: string_defs handler_defs world_defs)

section \<open>The tag path\<close>

lemma tagToSearch_Some_not_greeting: "tagToSearch m = Some tag \<Longrightarrow> m \<noteq> greeting"
  by (auto simp: tagToSearch_def startsWith_def greeting_def leadComma_def leadSpace_def
           split: if_splits)

lemma handleEvent_tag:
  assumes "supported src"
    and "trim text \<noteq> quoteCommand1" and "trim text \<noteq> quoteCommand2"
    and "tagToSearch (trim text) = Some tag" and "tag \<noteq> []"
  shows "handleEvent w cfg (MessageEvent src tok (TextMessage text)) = tagPath w cfg tok tag []"
  using assms tagToSearch_Some_not_greeting[OF assms(4)] by simp

lemma tagErrorMessage_inj: "tagErrorMessage e' tag = tagErrorMessage e tag \<Longrightarrow> e' = e"
  by (cases e; cases e')
     (simp_all add: tagErrorMessage_def tagErrorOtherTail_def tagErrorResponseTail_def
        tagErrorRequestTail_def)

text \<open>
  C5. When the search for the tag fails, the handler does nothing but that one GET and one
  reply: a single text chosen by what the error carries (a response, a request, or
  neither), built around the tag; the three texts differ from each other, and the
  generative model is never called.
\<close>

theorem tag_search_failure_is_terminal:
  assumes "supported src"
    and "trim text \<noteq> quoteCommand1" and "trim text \<noteq> quoteCommand2"
    and "tagToSearch (trim text) = Some tag" and "tag \<noteq> []"
    and "encodeURIComponent tag = Some q"
    and "axiosGet w [] (searchUrl cfg q) = GetError e"
  shows "handleEvent w cfg (MessageEvent src tok (TextMessage text))
           = [Get (searchUrl cfg q), Reply tok [Text (tagErrorMessage e tag)]]
         \<and> (\<forall>e'. tagErrorMessage e' tag = tagErrorMessage e tag \<longrightarrow> e' = e)
         \<and> (\<forall>p. Generate p \<notin> set (handleEvent w cfg (MessageEvent src tok (TextMessage text))))"
proof -
  have "handleEvent w cfg (MessageEvent src tok (TextMessage text))
           = [Get (searchUrl cfg q), Reply tok [Text (tagErrorMessage e tag)]]"
    using handleEvent_tag[OF assms(1-5)] assms(6) fetchAndSelect_failed[OF assms(7)]
    by (simp add: tagPath_def)
  then show ?thesis using tagErrorMessage_inj by auto
qed

theorem tag_search_failure_is_terminal_witness:
  "handleEvent silentWorld plainConfig (MessageEvent Group [0x74] (TextMessage (leadComma @ catTag)))
     = [Get (searchUrl plainConfig (percentEncode 0x8C93)),
        Reply [0x74] [Text (tagErrorHead @ catTag @ tagErrorRequestTail)]]
   \<and> tagErrorMessage HasResponse catTag \<noteq> tagErrorMessage HasRequest catTag
   \<and> tagErrorMessage Neither catTag \<noteq> tagErrorMessage HasRequest catTag"
proof -
  have "handleEvent silentWorld plainConfig (MessageEvent Group [0x74] (TextMessage (leadComma @ catTag)))
           = [Get (searchUrl plainConfig (percentEncode 0x8C93)),
              Reply [0x74] [Text (tagErrorMessage HasRequest catTag)]]
         \<and> (\<forall>e'. tagErrorMessage e' catTag = tagErrorMessage HasRequest catTag \<longrightarrow> e' = HasRequest)
         \<and> (\<forall>p. Generate p \<notin> set (handleEvent silentWorld plainConfig
                (MessageEvent Group [0x74] (TextMessage (leadComma @ catTag)))))"
    by (rule tag_search_failure_is_terminal)
       (simp_all add: string_defs tagToSearch_def supported_def silentWorld_def catTag_def)
  then have "handleEvent silentWorld plainConfig (MessageEvent Group [0x74] (TextMessage (leadComma @ catTag)))
           = [Get (searchUrl plainConfig (percentEncode 0x8C93)),
              Reply [0x74] [Text (tagErrorMessage HasRequest catTag)]]"
    and "tagErrorMessage HasResponse catTag \<noteq> tagErrorMessage HasRequest catTag"
    and "tagErrorMessage Neither catTag \<noteq> tagErrorMessage HasRequest catTag"
    by blast+
  then show ?thesis by (simp add: tagErrorMessage_def)
qed

lemma handleEvent_tag_nothing_found:
  assumes "supported src"
    and "trim text \<noteq> quoteCommand1" and "trim text \<noteq> quoteCommand2"
    and "tagToSearch (trim text) = Some tag" and "tag \<noteq> []"
    and "encodeURIComponent tag = Some q"
    and "axiosGet w [] (searchUrl cfg q) = Data d" and "photosOf d = []"
  shows "handleEvent w cfg (MessageEvent src tok (TextMessage text))
           = tagFallback w cfg tok tag [Get (searchUrl cfg q)]"
  using handleEvent_tag[OF assms(1-5)] assms(6) fetchAndSelect_none[OF assms(7,8)]
  by (simp add: tagPath_def)

lemma keywordLoop_effects:
  "keywordLoop w cfg tok mk ks h = (h', b) \<Longrightarrow> \<exists>es. h' = h @ es \<and> list_all isSearchEffect es"
proof (induction ks arbitrary: h)
  case Nil
  then show ?case by simp
next
  case (Cons k ks)
  show ?case
  proof (cases "encodeURIComponent k")
    case None
    with Cons show ?thesis by simp
  next
    case (Some q)
    show ?thesis
    proof (cases rule: fetchAndSelect_cases[of w h "searchUrl cfg q"])
      case (failed e)
      with Cons.prems Some have "keywordLoop w cfg tok mk ks (h @ [Get (searchUrl cfg q)]) = (h', b)"
        by simp
      from Cons.IH[OF this] show ?thesis by auto
    next
      case (none d)
      with Cons.prems Some have "keywordLoop w cfg tok mk ks (h @ [Get (searchUrl cfg q)]) = (h', b)"
        by simp
      from Cons.IH[OF this] show ?thesis by auto
    next
      case (picked d r)
      show ?thesis
      proof (cases "\<exists>p. checkPath r = ValidPath p")
        case True
        with Cons.prems Some picked show ?thesis by auto
      next
        case False
        with Cons.prems Some picked have
          "keywordLoop w cfg tok mk ks (h @ [Get (searchUrl cfg q), Selected r]) = (h', b)"
          by (cases "checkPath r") auto
        from Cons.IH[OF this] show ?thesis by auto
      qed
    qed
  qed
qed

text \<open>
  C4, as amended. On the tag path, when the search for the tag finds nothing and the
  keyword loop ends without a reply (also when there are no keywords at all), the handler
  calls the response generation exactly once and then replies exactly once, with a single
  text: the generated text with the whitespace at both ends removed, when that is not
  empty, and otherwise (a blank text or a failed call) the fixed text around the tag.
\<close>

theorem tag_fallback_response:
  assumes "supported src"
    and "trim text \<noteq> quoteCommand1" and "trim text \<noteq> quoteCommand2"
    and "tagToSearch (trim text) = Some tag" and "tag \<noteq> []"
    and "encodeURIComponent tag = Some q"
    and "axiosGet w [] (searchUrl cfg q) = Data d" and "photosOf d = []"
    and "keywordLoop w cfg tok (tagImageReply tag)
           (generateKeywords w (TagKeywordPrompt tag) tagKeywords [Get (searchUrl cfg q)])
           [Get (searchUrl cfg q), Generate (TagKeywordPrompt tag)] = (h2, False)"
  shows "handleEvent w cfg (MessageEvent src tok (TextMessage text))
           = h2 @ [Generate (TagResponsePrompt (koreanYuQuotesString cfg) tag),
                   Reply tok [Text
                     (case generateContent w h2 (TagResponsePrompt (koreanYuQuotesString cfg) tag) of
                        GeneratedText t \<Rightarrow>
                          if trim t \<noteq> [] then trim t else fallbackHead @ tag @ fallbackTail
                      | GenerateError \<Rightarrow> fallbackHead @ tag @ fallbackTail)]]
         \<and> (\<forall>e \<in> set h2. \<not> isReply e)
         \<and> (\<forall>quotes t. Generate (TagResponsePrompt quotes t) \<notin> set h2)"
proof -
  have run: "handleEvent w cfg (MessageEvent src tok (TextMessage text))
      = respondInStyle w tok (TagResponsePrompt (koreanYuQuotesString cfg) tag) tag h2"
    using handleEvent_tag_nothing_found[OF assms(1-8)] assms(9)
    by (simp add: tagFallback_def)
  from keywordLoop_finishes[OF assms(9)] have q: "quiet h2" by auto
  from keywordLoop_effects[OF assms(9)] obtain es where
    "h2 = [Get (searchUrl cfg q), Generate (TagKeywordPrompt tag)] @ es" "list_all isSearchEffect es"
    by blast
  then have "Generate (TagResponsePrompt quotes t) \<notin> set h2" for quotes t
    by (auto simp: list_all_iff)
  with run q show ?thesis
    by (auto simp: respondInStyle_def fixedFallback_def quiet_def Let_def
             split: generateResult.splits)
qed

theorem tag_fallback_response_witness:
  "handleEvent lineWorld plainConfig (MessageEvent Group [0x74] (TextMessage (leadComma @ catTag)))
     = [Get (searchUrl plainConfig (percentEncode 0x8C93)), Generate (TagKeywordPrompt catTag),
        Generate (TagResponsePrompt defaultFallbackQuote catTag), Reply [0x74] [Text [0x41]]]"
proof -
  have "handleEvent lineWorld plainConfig (MessageEvent Group [0x74] (TextMessage (leadComma @ catTag)))
     = [Get (searchUrl plainConfig (percentEncode 0x8C93)), Generate (TagKeywordPrompt catTag)]
       @ [Generate (TagResponsePrompt (koreanYuQuotesString plainConfig) catTag),
          Reply [0x74] [Text
            (case generateContent lineWorld
                    [Get (searchUrl plainConfig (percentEncode 0x8C93)), Generate (TagKeywordPrompt catTag)]
                    (TagResponsePrompt (koreanYuQuotesString plainConfig) catTag) of
               GeneratedText t \<Rightarrow>
                 if trim t \<noteq> [] then trim t else fallbackHead @ catTag @ fallbackTail
             | GenerateError \<Rightarrow> fallbackHead @ catTag @ fallbackTail)]]
     \<and> (\<forall>e \<in> set [Get (searchUrl plainConfig (percentEncode 0x8C93)), Generate (TagKeywordPrompt catTag)].
          \<not> isReply e)
     \<and> (\<forall>quotes t. Generate (TagResponsePrompt quotes t)
          \<notin> set [Get (searchUrl plainConfig (percentEncode 0x8C93)), Generate (TagKeywordPrompt catTag)])"
    by (rule tag_fallback_response[where d = "Some []"])
       (simp_all add: string_defs tagToSearch_def supported_def photosOf_def generateKeywords_def
          world_defs)
  then show ?thesis by (simp add: string_defs world_defs)
qed

text \<open>
  C4 as the specification states it fails: the generated line \<open>A\<close> followed by a line feed
  is not blank, and the reply carries \<open>A\<close> without the line feed.
\<close>

theorem tag_fallback_response_counterexample:
  "generateContent lineWorld
     [Get (searchUrl plainConfig (percentEncode 0x8C93)), Generate (TagKeywordPrompt catTag)]
     (TagResponsePrompt (koreanYuQuotesString plainConfig) catTag) = GeneratedText [0x41, 0xA]
   \<and> handleEvent lineWorld plainConfig (MessageEvent Group [0x74] (TextMessage (leadComma @ catTag)))
     = [Get (searchUrl plainConfig (percentEncode 0x8C93)), Generate (TagKeywordPrompt catTag),
        Generate (TagResponsePrompt (koreanYuQuotesString plainConfig) catTag),
        Reply [0x74] [Text [0x41]]]"
  by (simp add: string_defs handler_defs world_defs)

section \<open>The keyword loop\<close>

lemma photosPrefix_not_Nil: "startsWith p photosPrefix \<Longrightarrow> p \<noteq> []"
  by (auto simp: startsWith_def photosPrefix_def)

lemma searchSucceeds_iff:
  "searchSucceeds w h url p \<longleftrightarrow> snd (fetchAndSelect w url h) = ValidPath p"
proof (cases rule: fetchAndSelect_cases[of w h url])
  case (picked d r)
  then show ?thesis
    using photosPrefix_not_Nil[of p] by (auto simp: searchSucceeds_def checkPath_Valid)
qed (auto simp: searchSucceeds_def)

lemma searchSucceeds_unique:
  "searchSucceeds w h url p \<Longrightarrow> searchSucceeds w h url p' \<Longrightarrow> p = p'"
  by (simp add: searchSucceeds_iff)

lemma searchSucceeds_trace:
  "searchSucceeds w h url p \<Longrightarrow>
   fetchAndSelect w url h = (h @ [Get url, Selected (Photo (PathString p))], ValidPath p)"
  by (cases rule: fetchAndSelect_cases[of w h url])
     (auto simp: searchSucceeds_def checkPath_Valid dest: photosPrefix_not_Nil)

lemma keywordLoop_step:
  obtains (skip) "encodeURIComponent k = None"
      and "keywordLoop w cfg tok mk (k # ks) h = keywordLoop w cfg tok mk ks h"
  | (lose) q a where "encodeURIComponent k = Some q"
      and "a = [Get (searchUrl cfg q)] \<or> (\<exists>r. a = [Get (searchUrl cfg q), Selected r])"
      and "\<forall>p. \<not> searchSucceeds w h (searchUrl cfg q) p"
      and "keywordLoop w cfg tok mk (k # ks) h = keywordLoop w cfg tok mk ks (h @ a)"
  | (win) q p where "encodeURIComponent k = Some q"
      and "searchSucceeds w h (searchUrl cfg q) p"
      and "keywordLoop w cfg tok mk (k # ks) h =
             (h @ [Get (searchUrl cfg q), Selected (Photo (PathString p)),
                   Reply tok (mk (secureImageUrl cfg p))], True)"
proof (cases "encodeURIComponent k")
  case None
  then show ?thesis using skip by simp
next
  case (Some q)
  show ?thesis
  proof (cases "\<exists>p. searchSucceeds w h (searchUrl cfg q) p")
    case True
    then obtain p where p: "searchSucceeds w h (searchUrl cfg q) p" ..
    from searchSucceeds_trace[OF p] Some show ?thesis using win[OF Some p] by simp
  next
    case False
    then have no: "\<forall>p. \<not> searchSucceeds w h (searchUrl cfg q) p" by simp
    then have nv: "\<forall>p. snd (fetchAndSelect w (searchUrl cfg q) h) \<noteq> ValidPath p"
      by (simp add: searchSucceeds_iff)
    show ?thesis
    proof (cases rule: fetchAndSelect_cases[of w h "searchUrl cfg q"])
      case (failed e)
      with Some show ?thesis using lose[OF Some _ no, of "[Get (searchUrl cfg q)]"] by simp
    next
      case (none d)
      with Some show ?thesis using lose[OF Some _ no, of "[Get (searchUrl cfg q)]"] by simp
    next
      case (picked d r)
      with nv have "\<forall>p. checkPath r \<noteq> ValidPath p" by simp
      with picked Some have
        "keywordLoop w cfg tok mk (k # ks) h
           = keywordLoop w cfg tok mk ks (h @ [Get (searchUrl cfg q), Selected r])"
        by (cases "checkPath r") auto
      then show ?thesis using lose[OF Some _ no, of "[Get (searchUrl cfg q), Selected r]"] by blast
    qed
  qed
qed

lemma answered_Nil: "answered w cfg tok mk h []"
  by (simp add: answered_def)

lemma answered_win:
  assumes "searchSucceeds w h url p"
  shows "answered w cfg tok mk h
           [Get url, Selected (Photo (PathString p)), Reply tok (mk (secureImageUrl cfg p))]"
  unfolding answered_def
proof (intro allI impI)
  fix pre url' post p'
  assume "[Get url, Selected (Photo (PathString p)), Reply tok (mk (secureImageUrl cfg p))]
            = pre @ Get url' # post"
  then have d: "pre = []" "url' = url"
    "post = [Selected (Photo (PathString p)), Reply tok (mk (secureImageUrl cfg p))]"
    by (auto simp: Cons_eq_append_conv)
  show "searchSucceeds w (h @ pre) url' p' \<longleftrightarrow>
        post = [Selected (Photo (PathString p')), Reply tok (mk (secureImageUrl cfg p'))]"
    using d assms searchSucceeds_unique[of w h url p' p] by auto
qed

lemma answered_lose:
  assumes "a = [Get url] \<or> (\<exists>r. a = [Get url, Selected r])"
    and "\<forall>p. \<not> searchSucceeds w h url p"
    and "startsWithGet es" and "answered w cfg tok mk (h @ a) es"
  shows "answered w cfg tok mk h (a @ es)"
  unfolding answered_def
proof (intro allI impI)
  fix pre url' post p
  assume dec: "a @ es = pre @ Get url' # post"
  show "searchSucceeds w (h @ pre) url' p \<longleftrightarrow>
        post = [Selected (Photo (PathString p)), Reply tok (mk (secureImageUrl cfg p))]"
  proof (cases "pre = []")
    case True
    with dec assms(1) have u: "url' = url" and post: "post = tl a @ es" by auto
    have "post \<noteq> [Selected (Photo (PathString p)), Reply tok (mk (secureImageUrl cfg p))]"
      using assms(1,3) post by (auto simp: startsWithGet_def split: list.splits effect.splits)
    with True u assms(2) show ?thesis by simp
  next
    case False
    with dec assms(1) obtain pre' where pre: "pre = a @ pre'" and es: "es = pre' @ Get url' # post"
      by (auto simp: Cons_eq_append_conv)
    from assms(4) es have "searchSucceeds w ((h @ a) @ pre') url' p \<longleftrightarrow>
        post = [Selected (Photo (PathString p)), Reply tok (mk (secureImageUrl cfg p))]"
      unfolding answered_def by blast
    with pre show ?thesis by simp
  qed
qed

lemma keywordLoop_trace:
  "keywordLoop w cfg tok mk ks h = (h', replied) \<Longrightarrow>
   \<exists>n es. h' = h @ es \<and> n \<le> length ks
     \<and> gets es = map (searchUrl cfg) (List.map_filter encodeURIComponent (take n ks))
     \<and> startsWithGet es \<and> answered w cfg tok mk h es
     \<and> (if replied
          then \<exists>pre url p. es = pre @ [Get url, Selected (Photo (PathString p)),
                                         Reply tok (mk (secureImageUrl cfg p))] \<and> quiet pre
          else n = length ks \<and> quiet es)"
proof (induction ks arbitrary: h)
  case Nil
  then show ?case by (auto simp: answered_Nil startsWithGet_def)
next
  case (Cons k ks)
  show ?case
  proof (cases rule: keywordLoop_step[of k w cfg tok mk ks h])
    case skip
    with Cons.prems have "keywordLoop w cfg tok mk ks h = (h', replied)" by simp
    from Cons.IH[OF this] obtain n es where
      "h' = h @ es" "n \<le> length ks"
      "gets es = map (searchUrl cfg) (List.map_filter encodeURIComponent (take n ks))"
      "startsWithGet es" "answered w cfg tok mk h es"
      "if replied
       then \<exists>pre url p. es = pre @ [Get url, Selected (Photo (PathString p)),
                                      Reply tok (mk (secureImageUrl cfg p))] \<and> quiet pre
       else n = length ks \<and> quiet es"
      by blast
    with skip(1) show ?thesis
      by (intro exI[of _ "Suc n"] exI[of _ es]) (simp split: if_splits)
  next
    case (lose q a)
    with Cons.prems have "keywordLoop w cfg tok mk ks (h @ a) = (h', replied)" by simp
    from Cons.IH[OF this] obtain n es where
      ih: "h' = (h @ a) @ es" "n \<le> length ks"
      "gets es = map (searchUrl cfg) (List.map_filter encodeURIComponent (take n ks))"
      "startsWithGet es" "answered w cfg tok mk (h @ a) es"
      "if replied
       then \<exists>pre url p. es = pre @ [Get url, Selected (Photo (PathString p)),
                                      Reply tok (mk (secureImageUrl cfg p))] \<and> quiet pre
       else n = length ks \<and> quiet es"
      by blast
    have g: "gets (a @ es) = searchUrl cfg q # gets es" and qa: "quiet a"
      and sg: "startsWithGet (a @ es)"
      using lose(2) by (auto simp: startsWithGet_def)
    have an: "answered w cfg tok mk h (a @ es)"
      using answered_lose[OF lose(2,3) ih(4,5)] .
    have fin: "if replied
       then \<exists>pre url p. a @ es = pre @ [Get url, Selected (Photo (PathString p)),
                                      Reply tok (mk (secureImageUrl cfg p))] \<and> quiet pre
       else Suc n = length (k # ks) \<and> quiet (a @ es)"
    proof (cases replied)
      case True
      with ih(6) obtain pre url p where
        "es = pre @ [Get url, Selected (Photo (PathString p)), Reply tok (mk (secureImageUrl cfg p))]"
        "quiet pre" by auto
      then have "a @ es = (a @ pre) @ [Get url, Selected (Photo (PathString p)),
          Reply tok (mk (secureImageUrl cfg p))] \<and> quiet (a @ pre)"
        using qa by simp
      with True show ?thesis by metis
    next
      case False
      with ih(6) qa show ?thesis by simp
    qed
    from ih(1,2,3) g sg an fin lose(1) show ?thesis
      by (intro exI[of _ "Suc n"] exI[of _ "a @ es"]) simp
  next
    case (win q p)
    with Cons.prems have
      "h' = h @ [Get (searchUrl cfg q), Selected (Photo (PathString p)),
                 Reply tok (mk (secureImageUrl cfg p))]" "replied"
      by simp_all
    with win(1) answered_win[OF win(2), of cfg tok mk] show ?thesis
      by (intro exI[of _ "Suc 0"]
            exI[of _ "[Get (searchUrl cfg q), Selected (Photo (PathString p)),
                       Reply tok (mk (secureImageUrl cfg p))]"])
         (simp add: startsWithGet_def)
  qed
qed

lemma encodeURIComponent_cjk: "list_all isCjkOrDigit k \<Longrightarrow> encodeURIComponent k \<noteq> None"
  by (induction k rule: encodeURIComponent.induct)
     (auto simp: isCjkOrDigit_def isHighSurrogate_def isLowSurrogate_def)

lemma tag_keywords_encodable:
  "k \<in> set (generateKeywords w (TagKeywordPrompt tag) tagKeywords h) \<Longrightarrow> encodeURIComponent k \<noteq> None"
proof -
  assume "k \<in> set (generateKeywords w (TagKeywordPrompt tag) tagKeywords h)"
  then have "tagKeywordOk k"
    by (auto simp: generateKeywords_def tagKeywords_def Let_def
             split: generateResult.splits if_splits dest: in_set_takeD)
  then have "list_all isCjkOrDigit k"
    by (simp add: tagKeywordOk_def split: if_splits)
  then show ?thesis by (rule encodeURIComponent_cjk)
qed

lemma map_filter_all_Some:
  "\<forall>x \<in> set xs. f x \<noteq> None \<Longrightarrow> map f xs = map Some (List.map_filter f xs)"
  by (induction xs) auto

lemma gets_append: "gets (xs @ ys) = gets xs @ gets ys"
  by (induction xs rule: gets.induct) auto

lemma respondInStyle_trace:
  "\<exists>line. respondInStyle w tok p seed h = h @ [Generate p, Reply tok [Text line]]"
  by (auto simp: respondInStyle_def Let_def split: generateResult.splits)

text \<open>
  C2. On the tag path, when the search for the tag finds nothing, the handler asks for
  keywords and then searches for the first \<open>n\<close> of them, in the order of the keyword list
  (every keyword of the tag path can be encoded into a URL). A search that succeeds (a
  non-empty answer whose selected record has a valid path) is followed by the selection
  and the reply built from that record and by nothing else; a search that does not
  succeed is never followed by just those two. So either the trace ends with the first
  successful search and its reply, and no later keyword is searched; or no search
  succeeded, every keyword was searched (a failed GET or an invalid path did not end the
  loop) and the handler goes on to the response generation.
\<close>

theorem tag_keywords_searched_in_order:
  assumes "supported src"
    and "trim text \<noteq> quoteCommand1" and "trim text \<noteq> quoteCommand2"
    and "tagToSearch (trim text) = Some tag" and "tag \<noteq> []"
    and "encodeURIComponent tag = Some q0"
    and "axiosGet w [] (searchUrl cfg q0) = Data d" and "photosOf d = []"
    and ks: "ks = generateKeywords w (TagKeywordPrompt tag) tagKeywords [Get (searchUrl cfg q0)]"
    and h: "h = [Get (searchUrl cfg q0), Generate (TagKeywordPrompt tag)]"
  shows "\<exists>n qs es rest.
      handleEvent w cfg (MessageEvent src tok (TextMessage text)) = h @ es @ rest
    \<and> n \<le> length ks
    \<and> map encodeURIComponent (take n ks) = map Some qs
    \<and> gets es = map (searchUrl cfg) qs
    \<and> (\<forall>pre url post p. es = pre @ Get url # post \<longrightarrow>
          (searchSucceeds w (h @ pre) url p \<longleftrightarrow>
           post = [Selected (Photo (PathString p)),
                   Reply tok (tagImageReply tag (secureImageUrl cfg p))]))
    \<and> ((\<exists>pre p. qs \<noteq> [] \<and> rest = [] \<and> quiet pre \<and>
           es = pre @ [Get (searchUrl cfg (last qs)), Selected (Photo (PathString p)),
                       Reply tok (tagImageReply tag (secureImageUrl cfg p))])
       \<or> (n = length ks \<and> quiet es \<and>
           (\<exists>line. rest = [Generate (TagResponsePrompt (koreanYuQuotesString cfg) tag),
                            Reply tok [Text line]])))"
proof -
  obtain h' replied where loop: "keywordLoop w cfg tok (tagImageReply tag) ks h = (h', replied)"
    by (cases "keywordLoop w cfg tok (tagImageReply tag) ks h")
  have "tagFallback w cfg tok tag [Get (searchUrl cfg q0)]
      = (if replied then h'
         else respondInStyle w tok (TagResponsePrompt (koreanYuQuotesString cfg) tag) tag h')"
    using loop by (simp add: tagFallback_def ks h)
  then have run: "handleEvent w cfg (MessageEvent src tok (TextMessage text))
      = (if replied then h'
         else respondInStyle w tok (TagResponsePrompt (koreanYuQuotesString cfg) tag) tag h')"
    by (simp only: handleEvent_tag_nothing_found[OF assms(1-8)])
  from keywordLoop_trace[OF loop] obtain n es where
    tr: "h' = h @ es" "n \<le> length ks"
      "gets es = map (searchUrl cfg) (List.map_filter encodeURIComponent (take n ks))"
      "answered w cfg tok (tagImageReply tag) h es"
      "if replied
       then \<exists>pre url p. es = pre @ [Get url, Selected (Photo (PathString p)),
              Reply tok (tagImageReply tag (secureImageUrl cfg p))] \<and> quiet pre
       else n = length ks \<and> quiet es"
    by blast
  define qs where "qs = List.map_filter encodeURIComponent (take n ks)"
  have "\<forall>k \<in> set (take n ks). encodeURIComponent k \<noteq> None"
    using tag_keywords_encodable ks by (auto dest: in_set_takeD)
  then have enc: "map encodeURIComponent (take n ks) = map Some qs"
    unfolding qs_def by (rule map_filter_all_Some)
  have g: "gets es = map (searchUrl cfg) qs" using tr(3) by (simp add: qs_def)
  have an: "\<forall>pre url post p. es = pre @ Get url # post \<longrightarrow>
          (searchSucceeds w (h @ pre) url p \<longleftrightarrow>
           post = [Selected (Photo (PathString p)),
                   Reply tok (tagImageReply tag (secureImageUrl cfg p))])"
    using tr(4) unfolding answered_def by blast
  show ?thesis
  proof (cases replied)
    case True
    with tr(5) obtain pre url p where
      es: "es = pre @ [Get url, Selected (Photo (PathString p)),
              Reply tok (tagImageReply tag (secureImageUrl cfg p))]" and q: "quiet pre"
      by auto
    from es have "gets es = gets pre @ [url]" by (simp add: gets_append)
    with g have m: "map (searchUrl cfg) qs = gets pre @ [url]" by simp
    then have ne: "qs \<noteq> []" by auto
    from m have "last (map (searchUrl cfg) qs) = url" by simp
    with ne have "url = searchUrl cfg (last qs)" by (simp add: last_map)
    with es have es': "es = pre @ [Get (searchUrl cfg (last qs)), Selected (Photo (PathString p)),
              Reply tok (tagImageReply tag (secureImageUrl cfg p))]" by simp
    have hEq: "handleEvent w cfg (MessageEvent src tok (TextMessage text)) = h @ es @ []"
      using True tr(1) by (simp only: run if_True append_Nil2)
    have fin: "(\<exists>pre p. qs \<noteq> [] \<and> [] = ([]::effect list) \<and> quiet pre \<and>
           es = pre @ [Get (searchUrl cfg (last qs)), Selected (Photo (PathString p)),
                       Reply tok (tagImageReply tag (secureImageUrl cfg p))])
       \<or> (n = length ks \<and> quiet es \<and>
           (\<exists>line. [] = [Generate (TagResponsePrompt (koreanYuQuotesString cfg) tag),
                            Reply tok [Text line]]))"
      using ne q es' by blast
    show ?thesis
      by (rule exI[of _ n], rule exI[of _ qs], rule exI[of _ es], rule exI[of _ "[]"], intro conjI)
         (fact hEq, fact tr(2), fact enc, fact g, fact an, fact fin)
  next
    case False
    with tr(5) have all: "n = length ks" "quiet es" by auto
    obtain line where "respondInStyle w tok (TagResponsePrompt (koreanYuQuotesString cfg) tag) tag h'
        = h' @ [Generate (TagResponsePrompt (koreanYuQuotesString cfg) tag), Reply tok [Text line]]"
      using respondInStyle_trace by blast
    with False tr(1) have hEq:
      "handleEvent w cfg (MessageEvent src tok (TextMessage text))
         = h @ es @ [Generate (TagResponsePrompt (koreanYuQuotesString cfg) tag), Reply tok [Text line]]"
      by (simp only: run if_False append_assoc)
    have fin: "(\<exists>pre p. qs \<noteq> [] \<and>
           [Generate (TagResponsePrompt (koreanYuQuotesString cfg) tag), Reply tok [Text line]] = [] \<and>
           quiet pre \<and>
           es = pre @ [Get (searchUrl cfg (last qs)), Selected (Photo (PathString p)),
                       Reply tok (tagImageReply tag (secureImageUrl cfg p))])
       \<or> (n = length ks \<and> quiet es \<and>
           (\<exists>line'. [Generate (TagResponsePrompt (koreanYuQuotesString cfg) tag), Reply tok [Text line]]
                     = [Generate (TagResponsePrompt (koreanYuQuotesString cfg) tag),
                            Reply tok [Text line']]))"
      using all by blast
    show ?thesis
      by (rule exI[of _ n], rule exI[of _ qs], rule exI[of _ es],
          rule exI[of _ "[Generate (TagResponsePrompt (koreanYuQuotesString cfg) tag), Reply tok [Text line]]"],
          intro conjI)
         (fact hEq, fact tr(2), fact enc, fact g, fact an, fact fin)
  qed
qed

theorem tag_keywords_searched_in_order_witness:
  "handleEvent orderedWorld plainConfig (MessageEvent Group [0x74] (TextMessage (leadComma @ catTag)))
     = [Get (searchUrl plainConfig (percentEncode 0x8C93)), Generate (TagKeywordPrompt catTag),
        Get (searchUrl plainConfig (percentEncode 0x4E00)),
        Get (searchUrl plainConfig (percentEncode 0x4E8C)),
        Selected (Photo (PathString photoPath)),
        Reply [0x74] [Image securePhotoUrl securePhotoUrl]]
   \<and> generateKeywords orderedWorld (TagKeywordPrompt catTag) tagKeywords
         [Get (searchUrl plainConfig (percentEncode 0x8C93))] = [[0x4E00], [0x4E8C], [0x4E09]]
   \<and> (\<exists>n qs es rest.
        handleEvent orderedWorld plainConfig (MessageEvent Group [0x74] (TextMessage (leadComma @ catTag)))
          = [Get (searchUrl plainConfig (percentEncode 0x8C93)), Generate (TagKeywordPrompt catTag)]
              @ es @ rest
      \<and> n \<le> length [[0x4E00], [0x4E8C], [0x4E09::nat]]
      \<and> map encodeURIComponent (take n [[0x4E00], [0x4E8C], [0x4E09]]) = map Some qs
      \<and> gets es = map (searchUrl plainConfig) qs
      \<and> (\<forall>pre url post p. es = pre @ Get url # post \<longrightarrow>
            (searchSucceeds orderedWorld
               ([Get (searchUrl plainConfig (percentEncode 0x8C93)), Generate (TagKeywordPrompt catTag)]
                  @ pre) url p \<longleftrightarrow>
             post = [Selected (Photo (PathString p)),
                     Reply [0x74] (tagImageReply catTag (secureImageUrl plainConfig p))]))
      \<and> ((\<exists>pre p. qs \<noteq> [] \<and> rest = [] \<and> quiet pre \<and>
             es = pre @ [Get (searchUrl plainConfig (last qs)), Selected (Photo (PathString p)),
                         Reply [0x74] (tagImageReply catTag (secureImageUrl plainConfig p))])
         \<or> (n = length [[0x4E00], [0x4E8C], [0x4E09::nat]] \<and> quiet es \<and>
             (\<exists>line. rest = [Generate (TagResponsePrompt (koreanYuQuotesString plainConfig) catTag),
                              Reply [0x74] [Text line]]))))"
proof (intro conjI)
  show "handleEvent orderedWorld plainConfig (MessageEvent Group [0x74] (TextMessage (leadComma @ catTag)))
     = [Get (searchUrl plainConfig (percentEncode 0x8C93)), Generate (TagKeywordPrompt catTag),
        Get (searchUrl plainConfig (percentEncode 0x4E00)),
        Get (searchUrl plainConfig (percentEncode 0x4E8C)),
        Selected (Photo (PathString photoPath)),
        Reply [0x74] [Image securePhotoUrl securePhotoUrl]]"
    by (simp add: string_defs handler_defs world_defs)
  show "generateKeywords orderedWorld (TagKeywordPrompt catTag) tagKeywords
         [Get (searchUrl plainConfig (percentEncode 0x8C93))] = [[0x4E00], [0x4E8C], [0x4E09]]"
    by (simp add: string_defs handler_defs world_defs)
  show "\<exists>n qs es rest.
        handleEvent orderedWorld plainConfig (MessageEvent Group [0x74] (TextMessage (leadComma @ catTag)))
          = [Get (searchUrl plainConfig (percentEncode 0x8C93)), Generate (TagKeywordPrompt catTag)]
              @ es @ rest
      \<and> n \<le> length [[0x4E00], [0x4E8C], [0x4E09::nat]]
      \<and> map encodeURIComponent (take n [[0x4E00], [0x4E8C], [0x4E09]]) = map Some qs
      \<and> gets es = map (searchUrl plainConfig) qs
      \<and> (\<forall>pre url post p. es = pre @ Get url # post \<longrightarrow>
            (searchSucceeds orderedWorld
               ([Get (searchUrl plainConfig (percentEncode 0x8C93)), Generate (TagKeywordPrompt catTag)]
                  @ pre) url p \<longleftrightarrow>
             post = [Selected (Photo (PathString p)),
                     Reply [0x74] (tagImageReply catTag (secureImageUrl plainConfig p))]))
      \<and> ((\<exists>pre p. qs \<noteq> [] \<and> rest = [] \<and> quiet pre \<and>
             es = pre @ [Get (searchUrl plainConfig (last qs)), Selected (Photo (PathString p)),
                         Reply [0x74] (tagImageReply catTag (secureImageUrl plainConfig p))])
         \<or> (n = length [[0x4E00], [0x4E8C], [0x4E09::nat]] \<and> quiet es \<and>
             (\<exists>line. rest = [Generate (TagResponsePrompt (koreanYuQuotesString plainConfig) catTag),
                              Reply [0x74] [Text line]])))"
    by (rule tag_keywords_searched_in_order[where d = "Some []"])
       (simp_all add: string_defs tagToSearch_def supported_def photosOf_def generateKeywords_def
          tagKeywords_def tagKeywordOk_def isCjkOrDigit_def Let_def
          world_defs)
qed

section \<open>The one-to-one chat\<close>

lemma fetchAndSelect_agree:
  assumes "agreeBeyond n w w'" and "n < length h"
  shows "fetchAndSelect w url h = fetchAndSelect w' url h"
proof -
  from assms have "axiosGet w h = axiosGet w' h"
    by (simp add: agreeBeyond_def)
  moreover from assms have "mathRandom w (h @ [Get url]) = mathRandom w' (h @ [Get url])"
    by (simp add: agreeBeyond_def)
  ultimately show ?thesis
    by (simp add: fetchAndSelect_def Let_def split: getResult.splits)
qed

lemma fetchAndSelect_longer: "length h < length (fst (fetchAndSelect w url h))"
  by (cases rule: fetchAndSelect_cases[of w h url]) auto

lemma keywordLoop_agree:
  "agreeBeyond n w w' \<Longrightarrow> n < length h \<Longrightarrow>
   keywordLoop w cfg tok mk ks h = keywordLoop w' cfg tok mk ks h"
proof (induction ks arbitrary: h)
  case Nil
  then show ?case by simp
next
  case (Cons k ks)
  show ?case
  proof (cases "encodeURIComponent k")
    case None
    with Cons show ?thesis by simp
  next
    case (Some q)
    obtain h1 s where f: "fetchAndSelect w (searchUrl cfg q) h = (h1, s)"
      by (cases "fetchAndSelect w (searchUrl cfg q) h")
    with fetchAndSelect_agree[OF Cons.prems] have f': "fetchAndSelect w' (searchUrl cfg q) h = (h1, s)"
      by simp
    from f fetchAndSelect_longer[of h w "searchUrl cfg q"] Cons.prems(2) have "n < length h1"
      by simp
    from Cons.IH[OF Cons.prems(1) this] Some f f' show ?thesis
      by (cases s) simp_all
  qed
qed

lemma generateKeywords_agree:
  "agreeBeyond n w w' \<Longrightarrow> n < length h \<Longrightarrow>
   generateKeywords w p parse h = generateKeywords w' p parse h"
  by (simp add: agreeBeyond_def generateKeywords_def)

lemma respondInStyle_agree:
  "agreeBeyond n w w' \<Longrightarrow> n < length h \<Longrightarrow>
   respondInStyle w tok p seed h = respondInStyle w' tok p seed h"
  by (simp add: agreeBeyond_def respondInStyle_def)

lemma keywordLoop_longer: "length h \<le> length (fst (keywordLoop w cfg tok mk ks h))"
proof -
  obtain h' b where l: "keywordLoop w cfg tok mk ks h = (h', b)"
    by (cases "keywordLoop w cfg tok mk ks h")
  from keywordLoop_effects[OF l] l show ?thesis by auto
qed

lemma freeTextFallback_agree:
  assumes "agreeBeyond n w w'" and "n < length h"
  shows "freeTextFallback w cfg tok messageText h = freeTextFallback w' cfg tok messageText h"
proof -
  let ?p = "MessageKeywordPrompt messageText"
  let ?ks = "generateKeywords w ?p freeTextKeywords h"
  let ?l = "keywordLoop w cfg tok (\<lambda>url. [imageMessage url]) ?ks (h @ [Generate ?p])"
  have ks: "generateKeywords w' ?p freeTextKeywords h = ?ks"
    using generateKeywords_agree[OF assms] by simp
  have l: "keywordLoop w' cfg tok (\<lambda>url. [imageMessage url]) ?ks (h @ [Generate ?p]) = ?l"
    using keywordLoop_agree[OF assms(1), of "h @ [Generate ?p]"] assms(2) by simp
  have "n < length (fst ?l)"
    using keywordLoop_longer[of "h @ [Generate ?p]" w cfg tok "\<lambda>url. [imageMessage url]" ?ks] assms(2)
    by simp
  from respondInStyle_agree[OF assms(1) this] ks l show ?thesis
    by (simp add: freeTextFallback_def Let_def)
qed

lemma freeTextFallback_trace:
  "\<exists>rest. freeTextFallback w cfg tok messageText h
            = h @ Generate (MessageKeywordPrompt messageText) # rest"
proof -
  let ?p = "MessageKeywordPrompt messageText"
  obtain h' b where l: "keywordLoop w cfg tok (\<lambda>url. [imageMessage url])
      (generateKeywords w ?p freeTextKeywords h) (h @ [Generate ?p]) = (h', b)"
    by (cases "keywordLoop w cfg tok (\<lambda>url. [imageMessage url])
      (generateKeywords w ?p freeTextKeywords h) (h @ [Generate ?p])")
  from keywordLoop_effects[OF l] obtain es where es: "h' = (h @ [Generate ?p]) @ es" by blast
  obtain line where "respondInStyle w tok (MessageResponsePrompt (koreanYuQuotesString cfg) messageText)
        messageText h'
      = h' @ [Generate (MessageResponsePrompt (koreanYuQuotesString cfg) messageText),
              Reply tok [Text line]]"
    using respondInStyle_trace by blast
  with l es show ?thesis by (cases b) (simp_all add: freeTextFallback_def Let_def)
qed

lemma handleEvent_unmatched_user:
  "unmatched (trim text) \<Longrightarrow>
   handleEvent w cfg (MessageEvent User tok (TextMessage text)) = freeTextPath w cfg tok (trim text) []"
  by (auto simp: unmatched_def unmatchedText_def supported_def)

text \<open>
  C6. In a one-to-one chat, when the GET of the direct search for an unmatched message
  fails, the handler does exactly what it does in the world where that one GET answers
  with an empty list: the next thing after the GET is the call for keywords, and no reply
  is sent in between.
\<close>

theorem direct_search_failure_is_swallowed:
  assumes "unmatched (trim text)"
    and "encodeURIComponent (trim text) = Some q"
    and "axiosGet w [] (searchUrl cfg q) = GetError e"
  shows "handleEvent w cfg (MessageEvent User tok (TextMessage text))
           = handleEvent
               (w\<lparr>axiosGet := (axiosGet w)([] := (axiosGet w [])(searchUrl cfg q := Data (Some [])))\<rparr>)
               cfg (MessageEvent User tok (TextMessage text))
         \<and> (\<exists>rest. handleEvent w cfg (MessageEvent User tok (TextMessage text))
                     = Get (searchUrl cfg q) # Generate (MessageKeywordPrompt (trim text)) # rest)"
proof -
  let ?w' = "w\<lparr>axiosGet := (axiosGet w)([] := (axiosGet w [])(searchUrl cfg q := Data (Some [])))\<rparr>"
  let ?h = "[Get (searchUrl cfg q)]"
  have a: "agreeBeyond 0 w ?w'" by (simp add: agreeBeyond_def)
  have "freeTextPath w cfg tok (trim text) [] = freeTextFallback w cfg tok (trim text) ?h"
    using assms(2) fetchAndSelect_failed[OF assms(3)] by (simp add: freeTextPath_def)
  then have run: "handleEvent w cfg (MessageEvent User tok (TextMessage text))
      = freeTextFallback w cfg tok (trim text) ?h"
    by (simp only: handleEvent_unmatched_user[OF assms(1)])
  have "axiosGet ?w' [] (searchUrl cfg q) = Data (Some [])" by simp
  then have "fetchAndSelect ?w' (searchUrl cfg q) [] = ([] @ ?h, NoPhotos)"
    by (rule fetchAndSelect_none) (simp add: photosOf_def)
  then have "freeTextPath ?w' cfg tok (trim text) [] = freeTextFallback ?w' cfg tok (trim text) ?h"
    using assms(2) by (simp add: freeTextPath_def)
  then have run': "handleEvent ?w' cfg (MessageEvent User tok (TextMessage text))
      = freeTextFallback ?w' cfg tok (trim text) ?h"
    by (simp only: handleEvent_unmatched_user[OF assms(1)])
  have same: "freeTextFallback w cfg tok (trim text) ?h = freeTextFallback ?w' cfg tok (trim text) ?h"
    by (rule freeTextFallback_agree[OF a]) simp
  obtain rest where "freeTextFallback w cfg tok (trim text) ?h
      = ?h @ Generate (MessageKeywordPrompt (trim text)) # rest"
    using freeTextFallback_trace by blast
  then have shape: "handleEvent w cfg (MessageEvent User tok (TextMessage text))
      = Get (searchUrl cfg q) # Generate (MessageKeywordPrompt (trim text)) # rest"
    by (simp only: run append_Cons append_Nil)
  have eq: "handleEvent w cfg (MessageEvent User tok (TextMessage text))
      = handleEvent ?w' cfg (MessageEvent User tok (TextMessage text))"
    by (simp only: run run' same)
  show ?thesis
    by (rule conjI, rule eq, rule exI[of _ rest], rule shape)
qed

theorem direct_search_failure_is_swallowed_witness:
  "handleEvent silentWorld plainConfig (MessageEvent User [0x74] (TextMessage [0x48, 0x69]))
     = handleEvent
         (silentWorld\<lparr>axiosGet := (axiosGet silentWorld)
            ([] := (axiosGet silentWorld [])(searchUrl plainConfig [0x48, 0x69] := Data (Some [])))\<rparr>)
         plainConfig (MessageEvent User [0x74] (TextMessage [0x48, 0x69]))
   \<and> handleEvent silentWorld plainConfig (MessageEvent User [0x74] (TextMessage [0x48, 0x69]))
     = [Get (searchUrl plainConfig [0x48, 0x69]), Generate (MessageKeywordPrompt [0x48, 0x69]),
        Generate (MessageResponsePrompt defaultFallbackQuote [0x48, 0x69]),
        Reply [0x74] [Text (fallbackHead @ [0x48, 0x69] @ fallbackTail)]]"
proof -
  have t: "trim [0x48, 0x69] = [0x48, 0x69]" by (simp add: string_defs)
  have "handleEvent silentWorld plainConfig (MessageEvent User [0x74] (TextMessage [0x48, 0x69]))
     = handleEvent
         (silentWorld\<lparr>axiosGet := (axiosGet silentWorld)
            ([] := (axiosGet silentWorld [])(searchUrl plainConfig [0x48, 0x69] := Data (Some [])))\<rparr>)
         plainConfig (MessageEvent User [0x74] (TextMessage [0x48, 0x69]))
     \<and> (\<exists>rest. handleEvent silentWorld plainConfig (MessageEvent User [0x74] (TextMessage [0x48, 0x69]))
                 = Get (searchUrl plainConfig [0x48, 0x69])
                     # Generate (MessageKeywordPrompt (trim [0x48, 0x69])) # rest)"
    by (rule direct_search_failure_is_swallowed[where e = HasRequest])
       (simp_all add: string_defs unmatched_def tagToSearch_def silentWorld_def)
  moreover have "handleEvent silentWorld plainConfig (MessageEvent User [0x74] (TextMessage [0x48, 0x69]))
     = [Get (searchUrl plainConfig [0x48, 0x69]), Generate (MessageKeywordPrompt [0x48, 0x69]),
        Generate (MessageResponsePrompt defaultFallbackQuote [0x48, 0x69]),
        Reply [0x74] [Text (fallbackHead @ [0x48, 0x69] @ fallbackTail)]]"
    by (simp add: string_defs handler_defs world_defs)
  ultimately show ?thesis by blast
qed

end
